theory Spec2Isabelle
  imports Main "HOL-Library.AList"
begin

section \<open>Bundles and the bundle-splitting helper\<close>

text \<open>
  Source: \<^verbatim>\<open>apache_beam/runners/direct/transform_evaluator.py\<close>.

  A PCollection is identified by a name. An uncommitted bundle belongs to one
  PCollection and holds the elements output to it so far, in output order.
\<close>

type_synonym pcollection = string

record 'e uncommitted_bundle =
  bundle_pcollection :: pcollection
  bundle_elements :: "'e list"

text \<open>
  Modelled from the spec: the bundle factory is not part of the evaluator
  module. \<^verbatim>\<open>create_bundle(pcollection)\<close> yields a new, empty uncommitted bundle for the
  collection, and \<^verbatim>\<open>bundle.output(element)\<close> appends one element to it.
\<close>

definition create_bundle :: "pcollection \<Rightarrow> 'e uncommitted_bundle" where
  "create_bundle pc = \<lparr>bundle_pcollection = pc, bundle_elements = []\<rparr>"

definition bundle_output :: "'e uncommitted_bundle \<Rightarrow> 'e \<Rightarrow> 'e uncommitted_bundle" where
  "bundle_output b e = b\<lparr>bundle_elements := bundle_elements b @ [e]\<rparr>"

text \<open>
  Python truthiness of \<^verbatim>\<open>max_element_per_bundle\<close>: \<^verbatim>\<open>None\<close> and \<^verbatim>\<open>0\<close> are both false.
\<close>

fun cap_reached :: "int option \<Rightarrow> int \<Rightarrow> bool" where
  "cap_reached None bundle_size = False"
| "cap_reached (Some m) bundle_size = (m \<noteq> 0 \<and> bundle_size \<ge> m)"

text \<open>
  The \<^verbatim>\<open>for element in elements\<close> loop of \<^verbatim>\<open>_split_list_into_bundles\<close>. The Python
  variable \<^verbatim>\<open>bundle\<close> aliases the last entry of \<^verbatim>\<open>bundles\<close>; here \<open>closed\<close> holds the
  entries before it and \<open>cur\<close> is the entry still being filled.
\<close>

fun split_loop ::
  "int option \<Rightarrow> ('e \<Rightarrow> int) \<Rightarrow> pcollection \<Rightarrow> 'e list \<Rightarrow>
   'e uncommitted_bundle list \<Rightarrow> 'e uncommitted_bundle \<Rightarrow> int \<Rightarrow> 'e uncommitted_bundle list" where
  "split_loop cap size_fn pc [] closed cur bundle_size = closed @ [cur]"
| "split_loop cap size_fn pc (e # es) closed cur bundle_size =
     (if cap_reached cap bundle_size
      then split_loop cap size_fn pc es (closed @ [cur]) (bundle_output (create_bundle pc) e) (0 + size_fn e)
      else split_loop cap size_fn pc es closed (bundle_output cur e) (bundle_size + size_fn e))"

definition split_list_into_bundles ::
  "pcollection \<Rightarrow> 'e list \<Rightarrow> int option \<Rightarrow> ('e \<Rightarrow> int) \<Rightarrow> 'e uncommitted_bundle list" where
  "split_list_into_bundles output_pcollection elements max_element_per_bundle element_size_fn =
     split_loop max_element_per_bundle element_size_fn output_pcollection elements
       [] (create_bundle output_pcollection) 0"

text \<open>The size function \<^verbatim>\<open>lambda _: 1\<close> that the bounded-read evaluator passes.\<close>

definition unit_size :: "'e \<Rightarrow> int" where
  "unit_size e = 1"

section \<open>Errors, watermarks, windowed values, results\<close>

text \<open>
  Every \<^verbatim>\<open>raise\<close> and every failing \<^verbatim>\<open>assert\<close> of the source is a value of \<open>error\<close>.
  An operation that mutates shared state returns its result paired with the state it
  leaves behind, also when it raises.
\<close>

datatype error =
  AssertionError | NotImplementedError | TypeCheckError | TypeError | OtherError string

text \<open>
  Modelled from the spec: the watermark manager is not part of the evaluator module.
  A watermark (and a watermark hold) is \<open>-\<infinity>\<close>, \<open>+\<infinity>\<close> or a concrete timestamp.
\<close>

datatype watermark = WATERMARK_NEG_INF | WatermarkAt int | WATERMARK_POS_INF

datatype event_time = MIN_TIMESTAMP | EventTime int

datatype window = GlobalWindow | IntervalWindow int int

record 'p windowed_value =
  wv_value :: 'p
  wv_timestamp :: event_time
  wv_windows :: "window list"

text \<open>
  Modelled from the spec: \<^verbatim>\<open>GlobalWindows.windowed_value(e)\<close> is defined outside the
  evaluator module; it wraps \<open>e\<close> as a global-window timestamped value.
\<close>

definition GlobalWindows_windowed_value :: "'p \<Rightarrow> 'p windowed_value" where
  "GlobalWindows_windowed_value e =
     \<lparr>wv_value = e, wv_timestamp = MIN_TIMESTAMP, wv_windows = [GlobalWindow]\<rparr>"

text \<open>
  \<^verbatim>\<open>TransformResult(applied_ptransform, bundles, None, None, hold)\<close>: the transform (by
  its full label), the uncommitted output bundles and the watermark hold. The two
  positions that every evaluator modelled here fills with \<^verbatim>\<open>None\<close> are left out.
\<close>

record 'e transform_result =
  result_transform :: string
  uncommitted_output_bundles :: "'e uncommitted_bundle list"
  watermark_hold :: "watermark option"

section \<open>Applied transforms and the evaluator registry\<close>

text \<open>
  The transform classes that key the registry's table, and any other class
  (\<^verbatim>\<open>PTransform\<close>, \<^verbatim>\<open>object\<close>, user subclasses) by name.
\<close>

datatype transform_class =
  Read | Flatten | ParDo | GroupByKeyOnly | NativeWrite | ProcessKeyedElements
  | OtherClass string

text \<open>
  A Python class with its method resolution order: \<^verbatim>\<open>cls.mro()\<close> starts with the class
  itself, followed by its ancestors, most derived first.
\<close>

datatype py_class = PyClass transform_class "transform_class list"

fun mro :: "py_class \<Rightarrow> transform_class list" where
  "mro (PyClass c ancestors) = c # ancestors"

datatype pvalue = PCollection pcollection | DoOutputsTuple "pcollection list"

text \<open>
  An applied transform: its label, the class of its transform object, the attributes of
  the transform object that its evaluator reads (\<open>'t\<close>), the side inputs and the dict
  from output tag to output value.
\<close>

record 't applied_ptransform =
  full_label :: string
  transform_type :: py_class
  transform :: 't
  side_inputs :: "string list"
  outputs :: "(string \<times> pvalue) list"

datatype evaluator_class =
  BoundedReadEvaluator | FlattenEvaluator | ParDoEvaluator | GroupByKeyOnlyEvaluator
  | NativeWriteEvaluator | ProcessElemenetsEvaluator

text \<open>The table \<^verbatim>\<open>self._evaluators\<close> built by \<^verbatim>\<open>TransformEvaluatorRegistry.__init__\<close>.\<close>

fun evaluators :: "transform_class \<Rightarrow> evaluator_class option" where
  "evaluators Read = Some BoundedReadEvaluator"
| "evaluators Flatten = Some FlattenEvaluator"
| "evaluators ParDo = Some ParDoEvaluator"
| "evaluators GroupByKeyOnly = Some GroupByKeyOnlyEvaluator"
| "evaluators NativeWrite = Some NativeWriteEvaluator"
| "evaluators ProcessKeyedElements = Some ProcessElemenetsEvaluator"
| "evaluators (OtherClass name) = None"

text \<open>
  The loop \<^verbatim>\<open>for cls in ...mro(): evaluator = self._evaluators.get(cls); if evaluator: break\<close>.
  The second argument is the value of the variable \<^verbatim>\<open>evaluator\<close> before the remaining
  iterations; it is only read after the loop.
\<close>

fun walk_mro :: "transform_class list \<Rightarrow> evaluator_class option \<Rightarrow> evaluator_class option" where
  "walk_mro [] evaluator = evaluator"
| "walk_mro (cls # rest) evaluator =
     (case evaluators cls of
        Some found \<Rightarrow> Some found
      | None \<Rightarrow> walk_mro rest None)"

text \<open>
  \<^verbatim>\<open>for_application\<close>. The first assertion (\<^verbatim>\<open>assert applied_ptransform\<close>) holds for every
  applied-transform object. The loop runs at least once, since an MRO is never empty, so
  the variable \<^verbatim>\<open>evaluator\<close> is bound when it is read and its initial value here is
  immaterial. The constructor call \<^verbatim>\<open>evaluator(...)\<close> is the parameter \<open>construct\<close>: it may itself
  raise.
\<close>

definition for_application ::
  "(evaluator_class \<Rightarrow> 't applied_ptransform \<Rightarrow> 'b option \<Rightarrow> string list \<Rightarrow> error + 'ev) \<Rightarrow>
   't applied_ptransform \<Rightarrow> 'b option \<Rightarrow> string list \<Rightarrow> error + 'ev" where
  "for_application construct applied input_committed_bundle side_inputs_arg =
     (if (side_inputs applied \<noteq> []) \<noteq> (side_inputs_arg \<noteq> []) then Inl AssertionError
      else
        (case walk_mro (mro (transform_type applied)) None of
           None \<Rightarrow> Inl NotImplementedError
         | Some evaluator \<Rightarrow>
             construct evaluator applied input_committed_bundle side_inputs_arg))"

text \<open>
  \<^verbatim>\<open>isinstance(obj, cls)\<close> for ordinary classes: \<open>cls\<close> occurs in the MRO of the object's
  class. With a tuple of classes, \<^verbatim>\<open>isinstance\<close> is true when it is for one of them.
\<close>

fun isinstance :: "py_class \<Rightarrow> transform_class \<Rightarrow> bool" where
  "isinstance c cls = (cls \<in> set (mro c))"

fun isinstance_tuple :: "py_class \<Rightarrow> transform_class list \<Rightarrow> bool" where
  "isinstance_tuple c [] = False"
| "isinstance_tuple c (cls # rest) = (isinstance c cls \<or> isinstance_tuple c rest)"

definition should_execute_serially :: "'t applied_ptransform \<Rightarrow> bool" where
  "should_execute_serially applied =
     isinstance_tuple (transform_type applied) [GroupByKeyOnly, NativeWrite]"

text \<open>
  \<^verbatim>\<open>_expand_outputs\<close>: the set of output PCollections, a \<^verbatim>\<open>DoOutputsTuple\<close> contributing
  each of its members. The frozenset is a duplicate-free list.
\<close>

fun pvals :: "pvalue \<Rightarrow> pcollection list" where
  "pvals (PCollection pc) = [pc]"
| "pvals (DoOutputsTuple pcs) = pcs"

definition expand_outputs :: "'t applied_ptransform \<Rightarrow> pcollection list" where
  "expand_outputs applied = remdups (concat (map (\<lambda>(tag, pval). pvals pval) (outputs applied)))"

section \<open>Keyed state\<close>

text \<open>
  Modelled from the spec: the step context and its keyed state objects are defined
  outside the evaluator module. The state of one key holds, per state tag, what was
  added under it: the list-state tag \<^verbatim>\<open>elements\<close> accumulates the appended values in
  append order; the combining-value tag \<^verbatim>\<open>completed\<close> combines the added booleans with
  \<^verbatim>\<open>any\<close>. The step's table \<^verbatim>\<open>keyed_existing_state\<close> maps an encoded key, or \<^verbatim>\<open>None\<close> for
  the key-independent global state, to the state of that key; an entry is created
  lazily by \<^verbatim>\<open>get_keyed_state\<close> and never removed. The table is an association list
  with distinct keys, enumerated in order of creation.
\<close>

record 'v unmerged_state =
  elements_state :: "'v list"
  completed_state :: "bool list"

type_synonym 'v keyed_existing_state = "(string option \<times> 'v unmerged_state) list"

definition new_state :: "'v unmerged_state" where
  "new_state = \<lparr>elements_state = [], completed_state = []\<rparr>"

definition get_keyed_state :: "string option \<Rightarrow> 'v keyed_existing_state \<Rightarrow> 'v keyed_existing_state" where
  "get_keyed_state key table =
     (case map_of table key of None \<Rightarrow> table @ [(key, new_state)] | Some st \<Rightarrow> table)"

definition state_of :: "string option \<Rightarrow> 'v keyed_existing_state \<Rightarrow> 'v unmerged_state" where
  "state_of key table = (case map_of table key of None \<Rightarrow> new_state | Some st \<Rightarrow> st)"

definition add_elements :: "string option \<Rightarrow> 'v \<Rightarrow> 'v keyed_existing_state \<Rightarrow> 'v keyed_existing_state" where
  "add_elements key v table =
     AList.map_entry key (\<lambda>st. st\<lparr>elements_state := elements_state st @ [v]\<rparr>) table"

definition add_completed :: "string option \<Rightarrow> bool \<Rightarrow> 'v keyed_existing_state \<Rightarrow> 'v keyed_existing_state" where
  "add_completed key b table =
     AList.map_entry key (\<lambda>st. st\<lparr>completed_state := completed_state st @ [b]\<rparr>) table"

definition get_elements :: "string option \<Rightarrow> 'v keyed_existing_state \<Rightarrow> 'v list" where
  "get_elements key table = elements_state (state_of key table)"

definition get_completed :: "string option \<Rightarrow> 'v keyed_existing_state \<Rightarrow> bool" where
  "get_completed key table = list_ex (\<lambda>b. b) (completed_state (state_of key table))"

section \<open>The GroupByKeyOnly evaluator\<close>

text \<open>
  A Python object as far as \<^verbatim>\<open>process_element\<close> inspects it: a tuple with its items, another
  sized iterable (a list) with its items, an iterable without \<^verbatim>\<open>len\<close> (a generator), or a
  value that is not iterable. An element handed to \<^verbatim>\<open>process_element\<close> is a \<^verbatim>\<open>WindowedValue\<close>
  carrying such an object as its payload, or is itself such an object.
\<close>

datatype 'a payload = Tuple "'a list" | Sized "'a list" | Unsized | NotIterable 'a

datatype 'a element = Windowed "'a payload windowed_value" | NotWindowed "'a payload"

text \<open>
  \<^verbatim>\<open>isinstance(x, collections.Iterable)\<close>, \<^verbatim>\<open>len(x)\<close>, which raises \<^verbatim>\<open>TypeError\<close> for an object
  without a length, and the items that unpacking \<open>x\<close> yields.
\<close>

fun is_iterable :: "'a payload \<Rightarrow> bool" where
  "is_iterable (Tuple items) = True"
| "is_iterable (Sized items) = True"
| "is_iterable Unsized = True"
| "is_iterable (NotIterable x) = False"

fun py_len :: "'a payload \<Rightarrow> error + nat" where
  "py_len (Tuple items) = Inr (length items)"
| "py_len (Sized items) = Inr (length items)"
| "py_len Unsized = Inl TypeError"
| "py_len (NotIterable x) = Inl TypeError"

fun py_items :: "'a payload \<Rightarrow> 'a list" where
  "py_items (Tuple items) = items"
| "py_items (Sized items) = items"
| "py_items Unsized = []"
| "py_items (NotIterable x) = []"

text \<open>
  The exception that \<^verbatim>\<open>raise TypeCheckError('... %r.' % element)\<close> raises. The operator
  \<^verbatim>\<open>%\<close> takes a tuple on its right as the tuple of arguments: with the one conversion
  \<^verbatim>\<open>%r\<close> in the message, a tuple of any length but one makes the formatting itself raise
  \<^verbatim>\<open>TypeError\<close>, before the \<^verbatim>\<open>TypeCheckError\<close> is built. Any other object is formatted.
\<close>

fun raise_type_check_error :: "'a element \<Rightarrow> error" where
  "raise_type_check_error (NotWindowed (Tuple items)) =
     (if length items = 1 then TypeCheckError else TypeError)"
| "raise_type_check_error el = TypeCheckError"

text \<open>
  The key coder that \<^verbatim>\<open>start_bundle\<close> obtains from the coder registry for the key type
  of the transform's input type hint. Coders are an injected capability.
\<close>

record 'a coder =
  encode :: "'a \<Rightarrow> string"
  decode :: "string \<Rightarrow> 'a"

record 'a gbk_evaluator =
  gbk_applied_ptransform :: "'a coder applied_ptransform"
  output_pcollection :: pcollection
  key_coder :: "'a coder"

text \<open>\<^verbatim>\<open>_GroupByKeyOnlyEvaluator.start_bundle\<close>, run by the base constructor.\<close>

definition gbk_start_bundle ::
  "'a coder applied_ptransform \<Rightarrow> 'a keyed_existing_state \<Rightarrow>
   (error + 'a gbk_evaluator) \<times> 'a keyed_existing_state" where
  "gbk_start_bundle applied table =
     (let table1 = get_keyed_state None table in
      case expand_outputs applied of
        [pc] \<Rightarrow> (Inr \<lparr>gbk_applied_ptransform = applied, output_pcollection = pc,
                      key_coder = transform applied\<rparr>, table1)
      | _ \<Rightarrow> (Inl AssertionError, table1))"

text \<open>\<^verbatim>\<open>_GroupByKeyOnlyEvaluator.__init__\<close>.\<close>

definition gbk_init ::
  "'a coder applied_ptransform \<Rightarrow> string list \<Rightarrow> 'a keyed_existing_state \<Rightarrow>
   (error + 'a gbk_evaluator) \<times> 'a keyed_existing_state" where
  "gbk_init applied side_inputs_arg table =
     (if side_inputs_arg \<noteq> [] then (Inl AssertionError, table)
      else gbk_start_bundle applied table)"

text \<open>\<^verbatim>\<open>_GroupByKeyOnlyEvaluator.process_element\<close>.\<close>

definition gbk_process_element ::
  "'a gbk_evaluator \<Rightarrow> 'a element \<Rightarrow> 'a keyed_existing_state \<Rightarrow>
   (error + unit) \<times> 'a keyed_existing_state" where
  "gbk_process_element self el table =
     (if get_completed None table then (Inl AssertionError, table)
      else
        (case el of
           Windowed wv \<Rightarrow>
             if is_iterable (wv_value wv) then
               (case py_len (wv_value wv) of
                  Inl err \<Rightarrow> (Inl err, table)
                | Inr n \<Rightarrow>
                    if n = 2 then
                      (let k = py_items (wv_value wv) ! 0; v = py_items (wv_value wv) ! 1;
                           encoded_k = encode (key_coder self) k;
                           table1 = get_keyed_state (Some encoded_k) table
                       in (Inr (), add_elements (Some encoded_k) v table1))
                    else (Inl (raise_type_check_error el), table))
             else (Inl (raise_type_check_error el), table)
         | NotWindowed x \<Rightarrow> (Inl (raise_type_check_error el), table)))"

text \<open>
  The loop of \<^verbatim>\<open>finish_bundle\<close> over \<^verbatim>\<open>keyed_existing_state\<close>, skipping the global state.
\<close>

fun gbk_result_loop ::
  "'a gbk_evaluator \<Rightarrow> 'a keyed_existing_state \<Rightarrow> string option list \<Rightarrow>
   ('a \<times> 'a list) windowed_value list \<Rightarrow> ('a \<times> 'a list) windowed_value list" where
  "gbk_result_loop self table [] gbk_result = gbk_result"
| "gbk_result_loop self table (None # rest) gbk_result = gbk_result_loop self table rest gbk_result"
| "gbk_result_loop self table (Some encoded_k # rest) gbk_result =
     (let k = decode (key_coder self) encoded_k;
          vs = get_elements (Some encoded_k) table
      in gbk_result_loop self table rest (gbk_result @ [GlobalWindows_windowed_value (k, vs)]))"

definition len_element_fn :: "('a \<times> 'a list) windowed_value \<Rightarrow> int" where
  "len_element_fn el = (case wv_value el of (k, v) \<Rightarrow> int (length v))"

text \<open>
  \<^verbatim>\<open>_GroupByKeyOnlyEvaluator.finish_bundle\<close>. The input watermark is read from the
  execution context when the call is made; it is an argument here.
  \<^verbatim>\<open>MAX_ELEMENT_PER_BUNDLE\<close> is \<^verbatim>\<open>None\<close>.
\<close>

definition gbk_finish_bundle ::
  "'a gbk_evaluator \<Rightarrow> watermark \<Rightarrow> 'a keyed_existing_state \<Rightarrow>
   (error + ('a \<times> 'a list) windowed_value transform_result) \<times> 'a keyed_existing_state" where
  "gbk_finish_bundle self input_watermark table =
     (if input_watermark = WATERMARK_POS_INF then
        (let bundles =
               (if get_completed None table then []
                else split_list_into_bundles (output_pcollection self)
                       (gbk_result_loop self table (map fst table) []) None len_element_fn);
             table1 = add_completed None True table
         in (Inr \<lparr>result_transform = full_label (gbk_applied_ptransform self),
                   uncommitted_output_bundles = bundles,
                   watermark_hold = Some WATERMARK_POS_INF\<rparr>, table1))
      else
        (Inr \<lparr>result_transform = full_label (gbk_applied_ptransform self),
               uncommitted_output_bundles = [],
               watermark_hold = Some WATERMARK_NEG_INF\<rparr>, table))"

text \<open>
  Modelled from the spec: the executor that drives an evaluator is outside the
  evaluator module. For one input bundle it constructs the evaluator (which runs
  \<^verbatim>\<open>start_bundle\<close>), calls \<^verbatim>\<open>process_element\<close> for each element in bundle order and then
  \<^verbatim>\<open>finish_bundle\<close>; an exception aborts the evaluation. The side inputs passed to the
  constructor are those of the applied transform. A step that executes serially receives
  its bundles one after the other, on the same keyed state.
\<close>

record 'a delivery =
  delivered_elements :: "'a list"
  input_watermark_at_finish :: watermark
  output_watermark_at_finish :: watermark

fun gbk_process_elements ::
  "'a gbk_evaluator \<Rightarrow> 'a element list \<Rightarrow> 'a keyed_existing_state \<Rightarrow>
   (error + unit) \<times> 'a keyed_existing_state" where
  "gbk_process_elements self [] table = (Inr (), table)"
| "gbk_process_elements self (el # els) table =
     (case gbk_process_element self el table of
        (Inl err, table1) \<Rightarrow> (Inl err, table1)
      | (Inr u, table1) \<Rightarrow> gbk_process_elements self els table1)"

definition gbk_evaluate ::
  "'a coder applied_ptransform \<Rightarrow> 'a element delivery \<Rightarrow> 'a keyed_existing_state \<Rightarrow>
   (error + ('a \<times> 'a list) windowed_value transform_result) \<times> 'a keyed_existing_state" where
  "gbk_evaluate applied d table =
     (case gbk_init applied (side_inputs applied) table of
        (Inl err, table1) \<Rightarrow> (Inl err, table1)
      | (Inr self, table1) \<Rightarrow>
          (case gbk_process_elements self (delivered_elements d) table1 of
             (Inl err, table2) \<Rightarrow> (Inl err, table2)
           | (Inr u, table2) \<Rightarrow> gbk_finish_bundle self (input_watermark_at_finish d) table2))"

fun gbk_run ::
  "'a coder applied_ptransform \<Rightarrow> 'a element delivery list \<Rightarrow> 'a keyed_existing_state \<Rightarrow>
   (error + ('a \<times> 'a list) windowed_value transform_result list) \<times> 'a keyed_existing_state" where
  "gbk_run applied [] table = (Inr [], table)"
| "gbk_run applied (d # ds) table =
     (case gbk_evaluate applied d table of
        (Inl err, table1) \<Rightarrow> (Inl err, table1)
      | (Inr r, table1) \<Rightarrow>
          (case gbk_run applied ds table1 of
             (Inl err, table2) \<Rightarrow> (Inl err, table2)
           | (Inr rs, table2) \<Rightarrow> (Inr (r # rs), table2)))"

text \<open>The records in the output bundles of a list of results, in order.\<close>

definition emitted :: "'e transform_result list \<Rightarrow> 'e list" where
  "emitted rs = concat (map bundle_elements (concat (map uncommitted_output_bundles rs)))"

text \<open>
  The key-value pair that \<^verbatim>\<open>process_element\<close> accepts in an element, if any; the pairs of
  a list of elements, in order; and the values paired with a key in a list of pairs, in
  order.
\<close>

fun pair_of :: "'a element \<Rightarrow> ('a \<times> 'a) option" where
  "pair_of (Windowed wv) =
     (if is_iterable (wv_value wv) \<and> py_len (wv_value wv) = Inr 2
      then Some (py_items (wv_value wv) ! 0, py_items (wv_value wv) ! 1) else None)"
| "pair_of (NotWindowed p) = None"

definition pairs_of :: "'a element list \<Rightarrow> ('a \<times> 'a) list" where
  "pairs_of els = List.map_filter pair_of els"

definition values_of_key :: "'a \<Rightarrow> ('a \<times> 'a) list \<Rightarrow> 'a list" where
  "values_of_key k kvs = map snd (filter (\<lambda>kv. fst kv = k) kvs)"

text \<open>
  The invariant of the keyed state while pairs are appended: its keys are distinct, the
  completion flag is unset, the encoded keys present are those of the pairs appended so
  far, and each holds the values appended under it in append order.
\<close>

definition gbk_inv :: "'a coder \<Rightarrow> 'a keyed_existing_state \<Rightarrow> ('a \<times> 'a) list \<Rightarrow> bool" where
  "gbk_inv c table kvs \<longleftrightarrow>
     distinct (map fst table) \<and> \<not> get_completed None table
     \<and> (\<forall>ek. Some ek \<in> set (map fst table) \<longleftrightarrow> ek \<in> encode c ` fst ` set kvs)
     \<and> (\<forall>ek. get_elements (Some ek) table =
            map snd (filter (\<lambda>kv. encode c (fst kv) = ek) kvs))"

section \<open>The NativeWrite evaluator\<close>

text \<open>
  The state a sink evaluator works on: the step's keyed state and the sink. The sink
  records one entry per writer that was opened (\<^verbatim>\<open>with self._sink.writer() as writer\<close>),
  holding the values passed to \<^verbatim>\<open>writer.Write\<close> in call order.
\<close>

record 'a write_state =
  write_table :: "'a windowed_value keyed_existing_state"
  sink_writers :: "'a list list"

text \<open>
  The transform object of a \<^verbatim>\<open>_NativeWrite\<close>: its attribute \<^verbatim>\<open>sink\<close>, by name, \<^verbatim>\<open>None\<close> when
  it is not set.
\<close>

type_synonym native_write = "string option"

record 'a native_write_evaluator =
  nw_applied_ptransform :: "native_write applied_ptransform"
  nw_sink :: string

text \<open>
  \<^verbatim>\<open>_NativeWriteEvaluator.__init__\<close>: the base constructor runs \<^verbatim>\<open>start_bundle\<close> before the
  sink is checked.
\<close>

definition nw_start_bundle :: "'a write_state \<Rightarrow> 'a write_state" where
  "nw_start_bundle st = st\<lparr>write_table := get_keyed_state None (write_table st)\<rparr>"

definition nw_init ::
  "native_write applied_ptransform \<Rightarrow> string list \<Rightarrow> 'a write_state \<Rightarrow>
   (error + 'a native_write_evaluator) \<times> 'a write_state" where
  "nw_init applied side_inputs_arg st =
     (if side_inputs_arg \<noteq> [] then (Inl AssertionError, st)
      else
        (let st1 = nw_start_bundle st in
         case transform applied of
           None \<Rightarrow> (Inl AssertionError, st1)
         | Some sink \<Rightarrow> (Inr \<lparr>nw_applied_ptransform = applied, nw_sink = sink\<rparr>, st1)))"

definition nw_process_element ::
  "'a native_write_evaluator \<Rightarrow> 'a windowed_value \<Rightarrow> 'a write_state \<Rightarrow> 'a write_state" where
  "nw_process_element self el st = st\<lparr>write_table := add_elements None el (write_table st)\<rparr>"

text \<open>The loop \<^verbatim>\<open>for v in elements: writer.Write(v.value)\<close> on the open writer.\<close>

fun write_loop :: "'a windowed_value list \<Rightarrow> 'a list \<Rightarrow> 'a list" where
  "write_loop [] written = written"
| "write_loop (v # vs) written = write_loop vs (written @ [wv_value v])"

text \<open>
  \<^verbatim>\<open>_NativeWriteEvaluator.finish_bundle\<close>. Both watermarks are read from the execution
  context when the call is made; they are arguments here.
\<close>

definition nw_finish_bundle ::
  "'a native_write_evaluator \<Rightarrow> watermark \<Rightarrow> watermark \<Rightarrow> 'a write_state \<Rightarrow>
   (error + unit transform_result) \<times> 'a write_state" where
  "nw_finish_bundle self input_watermark output_watermark st =
     (if input_watermark = WATERMARK_POS_INF then
        (let elements = get_elements None (write_table st) in
         if output_watermark = WATERMARK_POS_INF then
           (if elements = [] then
              (Inr \<lparr>result_transform = full_label (nw_applied_ptransform self),
                     uncommitted_output_bundles = [],
                     watermark_hold = Some WATERMARK_POS_INF\<rparr>, st)
            else (Inl AssertionError, st))
         else
           (Inr \<lparr>result_transform = full_label (nw_applied_ptransform self),
                  uncommitted_output_bundles = [],
                  watermark_hold = Some WATERMARK_POS_INF\<rparr>,
            st\<lparr>sink_writers := sink_writers st @ [write_loop elements []]\<rparr>))
      else
        (Inr \<lparr>result_transform = full_label (nw_applied_ptransform self),
               uncommitted_output_bundles = [],
               watermark_hold = Some WATERMARK_NEG_INF\<rparr>, st))"

fun nw_process_elements ::
  "'a native_write_evaluator \<Rightarrow> 'a windowed_value list \<Rightarrow> 'a write_state \<Rightarrow> 'a write_state" where
  "nw_process_elements self [] st = st"
| "nw_process_elements self (el # els) st =
     nw_process_elements self els (nw_process_element self el st)"

definition nw_evaluate ::
  "native_write applied_ptransform \<Rightarrow> 'a windowed_value delivery \<Rightarrow> 'a write_state \<Rightarrow>
   (error + unit transform_result) \<times> 'a write_state" where
  "nw_evaluate applied d st =
     (case nw_init applied (side_inputs applied) st of
        (Inl err, st1) \<Rightarrow> (Inl err, st1)
      | (Inr self, st1) \<Rightarrow>
          nw_finish_bundle self (input_watermark_at_finish d) (output_watermark_at_finish d)
            (nw_process_elements self (delivered_elements d) st1))"

fun nw_run ::
  "native_write applied_ptransform \<Rightarrow> 'a windowed_value delivery list \<Rightarrow> 'a write_state \<Rightarrow>
   (error + unit transform_result list) \<times> 'a write_state" where
  "nw_run applied [] st = (Inr [], st)"
| "nw_run applied (d # ds) st =
     (case nw_evaluate applied d st of
        (Inl err, st1) \<Rightarrow> (Inl err, st1)
      | (Inr r, st1) \<Rightarrow>
          (case nw_run applied ds st1 of
             (Inl err, st2) \<Rightarrow> (Inl err, st2)
           | (Inr rs, st2) \<Rightarrow> (Inr (r # rs), st2)))"

section \<open>The bounded-read evaluator\<close>

text \<open>
  The transform object of a \<^verbatim>\<open>Read\<close>: its attribute \<^verbatim>\<open>source\<close>. A \<^verbatim>\<open>BoundedSource\<close> has
  \<^verbatim>\<open>get_range_tracker(start, stop)\<close> and \<^verbatim>\<open>read(range_tracker)\<close>; any other source has
  \<^verbatim>\<open>reader()\<close>. Reading yields the values in order, or raises.
\<close>

datatype ('a, 'r) source =
  BoundedSource "int option \<Rightarrow> int option \<Rightarrow> 'r" "'r \<Rightarrow> error + 'a list"
  | NativeSource "error + 'a list"

record ('a, 'r) bounded_read_evaluator =
  br_applied_ptransform :: "('a, 'r) source applied_ptransform"
  br_source :: "('a, 'r) source"
  br_outputs :: "pcollection list"

definition MAX_ELEMENT_PER_BUNDLE :: int where
  "MAX_ELEMENT_PER_BUNDLE = 1000"

text \<open>
  \<^verbatim>\<open>_BoundedReadEvaluator.__init__\<close>. A bundle object is always true in Python, so
  \<^verbatim>\<open>not input_committed_bundle\<close> holds exactly when no input bundle is passed.
  \<^verbatim>\<open>start_bundle\<close> is the base method, which does nothing.
\<close>

definition bounded_read_init ::
  "('a, 'r) source applied_ptransform \<Rightarrow> 'b option \<Rightarrow> string list \<Rightarrow>
   error + ('a, 'r) bounded_read_evaluator" where
  "bounded_read_init applied input_committed_bundle side_inputs_arg =
     (if input_committed_bundle \<noteq> None then Inl AssertionError
      else if side_inputs_arg \<noteq> [] then Inl AssertionError
      else Inr \<lparr>br_applied_ptransform = applied, br_source = transform applied,
                br_outputs = expand_outputs applied\<rparr>)"

definition read_values_to_bundles :: "pcollection \<Rightarrow> 'a list \<Rightarrow> 'a windowed_value uncommitted_bundle list" where
  "read_values_to_bundles output_pc reader =
     (let read_result = map GlobalWindows_windowed_value reader in
      split_list_into_bundles output_pc read_result (Some MAX_ELEMENT_PER_BUNDLE) unit_size)"

text \<open>\<^verbatim>\<open>_BoundedReadEvaluator.finish_bundle\<close>.\<close>

definition bounded_read_finish_bundle ::
  "('a, 'r) bounded_read_evaluator \<Rightarrow> error + 'a windowed_value transform_result" where
  "bounded_read_finish_bundle self =
     (case br_outputs self of
        [output_pc] \<Rightarrow>
          (case
             (case br_source self of
                BoundedSource get_range_tracker read_fn \<Rightarrow>
                  (let range_tracker = get_range_tracker None None in read_fn range_tracker)
              | NativeSource reader \<Rightarrow> reader)
           of
             Inl err \<Rightarrow> Inl err
           | Inr reader \<Rightarrow>
               Inr \<lparr>result_transform = full_label (br_applied_ptransform self),
                    uncommitted_output_bundles = read_values_to_bundles output_pc reader,
                    watermark_hold = None\<rparr>)
      | _ \<Rightarrow> Inl AssertionError)"

text \<open>
  What a source yields when it is read in full: a \<^verbatim>\<open>BoundedSource\<close> over the range tracker
  of its default range (\<^verbatim>\<open>get_range_tracker(None, None)\<close>), any other source through its
  reader.
\<close>

fun default_read :: "('a, 'r) source \<Rightarrow> error + 'a list" where
  "default_read (BoundedSource get_range_tracker read_fn) = read_fn (get_range_tracker None None)"
| "default_read (NativeSource reader) = reader"

section \<open>The splittable process-element invoker\<close>

text \<open>
  Source: \<^verbatim>\<open>apache_beam/runners/sdf_common.py\<close>. The invoker and the tracker are objects
  whose classes are defined by subclasses: \<^verbatim>\<open>invoke_process\<close> runs the user's process
  logic on the element, which may claim work on the tracker and may raise;
  \<^verbatim>\<open>check_done\<close> inspects the tracker and may raise. \<open>'t\<close> is the tracker's mutable state.
\<close>

record ('e, 't) do_fn_invoker =
  invoker_is_DoFnInvoker :: bool
  invoke_process :: "'e \<Rightarrow> 't \<Rightarrow> (error + unit) \<times> 't"

record 't restriction_tracker =
  tracker_is_RestrictionTracker :: bool
  check_done :: "'t \<Rightarrow> error + unit"
  tracker_state :: 't

text \<open>\<^verbatim>\<open>OutputAndTimeBoundSplittableProcessElementInvoker.invoke_process_element\<close>.\<close>

definition invoke_process_element ::
  "('e, 't) do_fn_invoker \<Rightarrow> 'e \<Rightarrow> 't restriction_tracker \<Rightarrow> (error + unit) \<times> 't" where
  "invoke_process_element invoker el tracker =
     (if \<not> invoker_is_DoFnInvoker invoker then (Inl AssertionError, tracker_state tracker)
      else if \<not> tracker_is_RestrictionTracker tracker then (Inl AssertionError, tracker_state tracker)
      else
        (case invoke_process invoker el (tracker_state tracker) of
           (Inl err, t1) \<Rightarrow> (Inl err, t1)
         | (Inr u, t1) \<Rightarrow> (check_done tracker t1, t1)))"

section \<open>Example objects\<close>

text \<open>
  A key coder on strings that encodes a key as itself, a \<^verbatim>\<open>_GroupByKeyOnly\<close> step with one
  output, its evaluator, and a global-window key-value element.
\<close>

definition example_coder :: "string coder" where
  "example_coder = \<lparr>encode = (\<lambda>k. k), decode = (\<lambda>b. b)\<rparr>"

definition example_gbk :: "string coder applied_ptransform" where
  "example_gbk =
     \<lparr>full_label = ''GroupByKey'',
      transform_type = PyClass GroupByKeyOnly [OtherClass ''PTransform'', OtherClass ''object''],
      transform = example_coder, side_inputs = [],
      outputs = [(''None'', PCollection ''grouped'')]\<rparr>"

definition example_gbk_evaluator :: "string gbk_evaluator" where
  "example_gbk_evaluator =
     \<lparr>gbk_applied_ptransform = example_gbk, output_pcollection = ''grouped'',
      key_coder = example_coder\<rparr>"

definition kv :: "'a \<Rightarrow> 'a \<Rightarrow> 'a element" where
  "kv k v = Windowed (GlobalWindows_windowed_value (Tuple [k, v]))"

text \<open>
  A \<^verbatim>\<open>Read\<close> step over a bounded source that yields three values on its default range.
\<close>

definition example_read :: "(int, int option \<times> int option) source applied_ptransform" where
  "example_read =
     \<lparr>full_label = ''Read'',
      transform_type = PyClass Read [OtherClass ''PTransform'', OtherClass ''object''],
      transform = BoundedSource (\<lambda>start stop. (start, stop))
                    (\<lambda>r. if r = (None, None) then Inr [7, 8, 9] else Inl (OtherError ''range'')),
      side_inputs = [],
      outputs = [(''None'', PCollection ''lines'')]\<rparr>"

text \<open>
  A tracker for a restriction of ten work units, whose state counts the units claimed so
  far and whose \<^verbatim>\<open>check_done\<close> raises unless all ten are claimed; and an invoker whose
  process logic claims as many units as the element says.
\<close>

definition example_invoker :: "(nat, nat) do_fn_invoker" where
  "example_invoker =
     \<lparr>invoker_is_DoFnInvoker = True, invoke_process = (\<lambda>el claimed. (Inr (), claimed + el))\<rparr>"

definition example_tracker :: "nat restriction_tracker" where
  "example_tracker =
     \<lparr>tracker_is_RestrictionTracker = True,
      check_done = (\<lambda>claimed. if claimed = 10 then Inr () else Inl (OtherError ''ValueError'')),
      tracker_state = 0\<rparr>"

text \<open>A \<^verbatim>\<open>_NativeWrite\<close> step with a sink.\<close>

definition example_write :: "native_write applied_ptransform" where
  "example_write =
     \<lparr>full_label = ''Write'',
      transform_type = PyClass NativeWrite [OtherClass ''PTransform'', OtherClass ''object''],
      transform = Some ''sink'', side_inputs = [], outputs = []\<rparr>"

section \<open>Properties of the bundle-splitting helper\<close>

lemma unit_size_eq: "unit_size = (\<lambda>_. 1)"
  by (rule ext) (simp add: unit_size_def)

lemma split_loop_concat:
  "concat (map bundle_elements (split_loop cap size_fn pc es closed cur sz)) =
     concat (map bundle_elements closed) @ bundle_elements cur @ es"
  by (induction es arbitrary: closed cur sz) (simp_all add: bundle_output_def create_bundle_def)

lemma split_loop_nonempty: "split_loop cap size_fn pc es closed cur sz \<noteq> []"
  by (induction es arbitrary: closed cur sz) simp_all

lemma split_loop_None:
  "split_loop None size_fn pc es closed cur sz =
     closed @ [cur\<lparr>bundle_elements := bundle_elements cur @ es\<rparr>]"
  by (induction es arbitrary: closed cur sz) (simp_all add: bundle_output_def)

lemma split_loop_bound:
  assumes "1 \<le> N" and "int (length (bundle_elements cur)) = sz" and "sz \<le> N"
    and "\<forall>b \<in> set closed. int (length (bundle_elements b)) \<le> N"
  shows "\<forall>b \<in> set (split_loop (Some N) (\<lambda>_. 1) pc es closed cur sz).
           int (length (bundle_elements b)) \<le> N"
  using assms
proof (induction es arbitrary: closed cur sz)
  case Nil
  then show ?case by simp
next
  case (Cons e es)
  show ?case
  proof (cases "cap_reached (Some N) sz")
    case True
    have "\<forall>b \<in> set (split_loop (Some N) (\<lambda>_. 1) pc es (closed @ [cur])
                      (bundle_output (create_bundle pc) e) 1). int (length (bundle_elements b)) \<le> N"
      using Cons.prems by (intro Cons.IH) (auto simp: bundle_output_def create_bundle_def)
    with True show ?thesis by (simp del: cap_reached.simps)
  next
    case False
    with Cons.prems have lt: "sz < N" by simp
    have "\<forall>b \<in> set (split_loop (Some N) (\<lambda>_. 1) pc es closed (bundle_output cur e) (sz + 1)).
            int (length (bundle_elements b)) \<le> N"
      using Cons.prems lt by (intro Cons.IH) (auto simp: bundle_output_def)
    with False show ?thesis by (simp del: cap_reached.simps)
  qed
qed

lemma div_add_cap: "1 \<le> N \<Longrightarrow> (a + N) div N = a div N + (1::int)"
  by (intro div_add_self2) simp

lemma split_loop_count:
  assumes "1 \<le> N" and "0 \<le> sz" and "sz \<le> N"
  shows "int (length (split_loop (Some N) (\<lambda>_. 1) pc es closed cur sz)) =
           int (length closed) + max 1 ((sz + int (length es) + N - 1) div N)"
  using assms
proof (induction es arbitrary: closed cur sz)
  case Nil
  have "(sz + N - 1) div N \<le> 1"
  proof -
    have "sz + N - 1 = (sz - 1) + N" by simp
    moreover have "((sz - 1) + N) div N = (sz - 1) div N + 1"
      using Nil(1) by (rule div_add_cap)
    ultimately have "(sz + N - 1) div N = (sz - 1) div N + 1"
      by (simp only:)
    moreover have "(sz - 1) div N \<le> (N - 1) div N"
      using Nil by (intro zdiv_mono1) simp_all
    moreover have "(N - 1) div N = 0"
      using Nil(1) by (simp add: div_pos_pos_trivial)
    ultimately show ?thesis by simp
  qed
  then show ?case by simp
next
  case (Cons e es)
  show ?case
  proof (cases "cap_reached (Some N) sz")
    case True
    with Cons.prems have eq: "sz = N" by simp
    have ih: "int (length (split_loop (Some N) (\<lambda>_. 1) pc es (closed @ [cur])
                  (bundle_output (create_bundle pc) e) 1)) =
          int (length (closed @ [cur])) + max 1 ((1 + int (length es) + N - 1) div N)"
      using Cons.prems by (intro Cons.IH) simp_all
    have a: "(N + (1 + int (length es)) + N - 1) div N = 1 + (int (length es) + N) div N"
    proof -
      have "N + (1 + int (length es)) + N - 1 = (int (length es) + N) + N" by simp
      moreover have "((int (length es) + N) + N) div N = (int (length es) + N) div N + 1"
        using Cons.prems(1) by (rule div_add_cap)
      ultimately show ?thesis by (simp only: add.commute)
    qed
    have b: "1 \<le> (int (length es) + N) div N"
    proof -
      have "(int (length es) + N) div N = int (length es) div N + 1"
        using Cons.prems(1) by (rule div_add_cap)
      moreover have "0 \<le> int (length es) div N"
        using Cons.prems(1) by (simp add: pos_imp_zdiv_nonneg_iff)
      ultimately show ?thesis by simp
    qed
    from ih a b eq have "int (length (split_loop (Some N) (\<lambda>_. 1) pc es (closed @ [cur])
                  (bundle_output (create_bundle pc) e) 1)) =
          int (length closed) + max 1 ((sz + int (length (e # es)) + N - 1) div N)"
      by simp
    with True show ?thesis by (simp del: cap_reached.simps)
  next
    case False
    with Cons.prems have lt: "sz < N" by simp
    have ih: "int (length (split_loop (Some N) (\<lambda>_. 1) pc es closed (bundle_output cur e) (sz + 1))) =
          int (length closed) + max 1 ((sz + 1 + int (length es) + N - 1) div N)"
      using Cons.prems lt by (intro Cons.IH) simp_all
    have "sz + 1 + int (length es) + N - 1 = sz + (1 + int (length es)) + N - 1" by simp
    with False ih show ?thesis by (simp del: cap_reached.simps)
  qed
qed

text \<open>
  C3, as stated, at the empty input with cap 1: the helper returns one (empty) bundle,
  while \<open>ceil(0 / 1) = 0\<close>. The number of bundles is therefore not \<open>ceil(len / N)\<close>
  for an empty input.
\<close>

theorem split_empty_input_counterexample:
  "int (length (split_list_into_bundles ''out'' ([] :: int list) (Some 1) unit_size))
     \<noteq> (int (length ([] :: int list)) + 1 - 1) div 1"
  by (simp add: split_list_into_bundles_def)

text \<open>
  C3 (amended). With cap \<^verbatim>\<open>None\<close> the helper returns exactly one bundle, holding the whole
  input. With a cap \<open>N \<ge> 1\<close> and the constant size function 1 it returns
  \<open>max 1 (ceil(len / N))\<close> bundles (\<open>ceil(len / N)\<close> written as \<open>(len + N - 1) div N\<close>),
  each with at most \<open>N\<close> elements. For every cap and size function the bundles
  concatenate to the input, in order, and at least one bundle is returned.
\<close>

theorem split_list_into_bundles_spec:
  "split_list_into_bundles pc xs None size_fn =
      [\<lparr>bundle_pcollection = pc, bundle_elements = xs\<rparr>]
   \<and> (1 \<le> N \<longrightarrow>
        int (length (split_list_into_bundles pc xs (Some N) unit_size)) =
          max 1 ((int (length xs) + N - 1) div N)
        \<and> (\<forall>b \<in> set (split_list_into_bundles pc xs (Some N) unit_size).
              int (length (bundle_elements b)) \<le> N))
   \<and> concat (map bundle_elements (split_list_into_bundles pc xs cap size_fn)) = xs
   \<and> split_list_into_bundles pc xs cap size_fn \<noteq> []"
proof (intro conjI impI)
  show "split_list_into_bundles pc xs None size_fn =
          [\<lparr>bundle_pcollection = pc, bundle_elements = xs\<rparr>]"
    by (simp add: split_list_into_bundles_def split_loop_None create_bundle_def)
next
  assume N: "1 \<le> N"
  then show "int (length (split_list_into_bundles pc xs (Some N) unit_size)) =
          max 1 ((int (length xs) + N - 1) div N)"
    using split_loop_count [of N 0 pc xs "[]" "create_bundle pc"]
    by (simp add: split_list_into_bundles_def unit_size_eq)
next
  assume N: "1 \<le> N"
  have "\<forall>b \<in> set (split_loop (Some N) (\<lambda>_. 1) pc xs [] (create_bundle pc) 0).
          int (length (bundle_elements b)) \<le> N"
    using N by (intro split_loop_bound) (simp_all add: create_bundle_def)
  then show "\<forall>b \<in> set (split_list_into_bundles pc xs (Some N) unit_size).
          int (length (bundle_elements b)) \<le> N"
    by (simp add: split_list_into_bundles_def unit_size_eq)
next
  show "concat (map bundle_elements (split_list_into_bundles pc xs cap size_fn)) = xs"
    by (simp add: split_list_into_bundles_def split_loop_concat create_bundle_def)
next
  show "split_list_into_bundles pc xs cap size_fn \<noteq> []"
    by (simp add: split_list_into_bundles_def split_loop_nonempty)
qed

theorem split_list_into_bundles_spec_witness:
  "split_list_into_bundles ''out'' [10, 20, 30, 40, 50 :: int] None unit_size =
      [\<lparr>bundle_pcollection = ''out'', bundle_elements = [10, 20, 30, 40, 50]\<rparr>]
   \<and> (1 :: int) \<le> 2
   \<and> length (split_list_into_bundles ''out'' [10, 20, 30, 40, 50 :: int] (Some 2) unit_size) = 3
   \<and> map bundle_elements (split_list_into_bundles ''out'' [10, 20, 30, 40, 50 :: int] (Some 2) unit_size)
        = [[10, 20], [30, 40], [50]]
   \<and> list_all (\<lambda>b. int (length (bundle_elements b)) \<le> 2)
        (split_list_into_bundles ''out'' [10, 20, 30, 40, 50 :: int] (Some 2) unit_size)"
  using split_list_into_bundles_spec [of "''out''" "[10, 20, 30, 40, 50 :: int]" unit_size 2 "Some 2"]
  by (simp add: split_list_into_bundles_def unit_size_def bundle_output_def create_bundle_def
      list_all_iff)

section \<open>Properties of the evaluator registry\<close>

lemma walk_mro_map_filter:
  "walk_mro classes None =
     (case List.map_filter evaluators classes of [] \<Rightarrow> None | found # others \<Rightarrow> Some found)"
  by (induction classes) (simp_all add: List.map_filter_simps split: option.splits)

lemma map_filter_evaluators_none:
  "\<forall>cls \<in> set classes. evaluators cls = None \<Longrightarrow> List.map_filter evaluators classes = []"
  by (induction classes) (auto simp: List.map_filter_simps)

text \<open>
  C5. When the call passes its entry assertion on the side inputs, \<^verbatim>\<open>for_application\<close>
  constructs the evaluator registered for the first class of the transform's MRO (most
  derived first) that the table knows. If no class of the MRO is registered it raises
  \<^verbatim>\<open>NotImplementedError\<close>. An unregistered subclass whose next class in the MRO is registered
  gets that class's evaluator.
\<close>

theorem for_application_resolution:
  assumes "(side_inputs applied = []) = (side_inputs_arg = [])"
  shows "for_application construct applied input_bundle side_inputs_arg =
           (case List.map_filter evaluators (mro (transform_type applied)) of
              [] \<Rightarrow> Inl NotImplementedError
            | found # others \<Rightarrow> construct found applied input_bundle side_inputs_arg)
         \<and> ((\<forall>cls \<in> set (mro (transform_type applied)). evaluators cls = None) \<longrightarrow>
              for_application construct applied input_bundle side_inputs_arg = Inl NotImplementedError)
         \<and> (\<forall>name base ancestors found.
              transform_type applied = PyClass (OtherClass name) (base # ancestors)
              \<and> evaluators base = Some found \<longrightarrow>
              for_application construct applied input_bundle side_inputs_arg =
                construct found applied input_bundle side_inputs_arg)"
proof -
  have main: "for_application construct applied input_bundle side_inputs_arg =
           (case List.map_filter evaluators (mro (transform_type applied)) of
              [] \<Rightarrow> Inl NotImplementedError
            | found # others \<Rightarrow> construct found applied input_bundle side_inputs_arg)"
    using assms
    by (auto simp add: for_application_def walk_mro_map_filter split: list.splits)
  show ?thesis
    using main map_filter_evaluators_none [of "mro (transform_type applied)"]
    by (auto simp: List.map_filter_simps)
qed

theorem for_application_resolution_witness:
  "for_application (\<lambda>ev a b s. Inr ev)
      \<lparr>full_label = ''MyParDo'',
       transform_type = PyClass (OtherClass ''MyParDo'')
                          [ParDo, OtherClass ''PTransform'', OtherClass ''object''],
       transform = (), side_inputs = [], outputs = []\<rparr> (None :: unit option) []
     = (Inr ParDoEvaluator :: error + evaluator_class)
   \<and> for_application (\<lambda>ev a b s. Inr ev)
      \<lparr>full_label = ''Unrelated'',
       transform_type = PyClass (OtherClass ''Unrelated'')
                          [OtherClass ''PTransform'', OtherClass ''object''],
       transform = (), side_inputs = [], outputs = []\<rparr> (None :: unit option) []
     = (Inl NotImplementedError :: error + evaluator_class)"
  using for_application_resolution [of
      "\<lparr>full_label = ''MyParDo'',
        transform_type = PyClass (OtherClass ''MyParDo'')
                           [ParDo, OtherClass ''PTransform'', OtherClass ''object''],
        transform = (), side_inputs = [], outputs = []\<rparr>"
      "[]" "\<lambda>ev a b s. Inr ev :: error + evaluator_class" "None :: unit option"]
    for_application_resolution [of
      "\<lparr>full_label = ''Unrelated'',
        transform_type = PyClass (OtherClass ''Unrelated'')
                           [OtherClass ''PTransform'', OtherClass ''object''],
        transform = (), side_inputs = [], outputs = []\<rparr>"
      "[]" "\<lambda>ev a b s. Inr ev :: error + evaluator_class" "None :: unit option"]
  by (simp add: List.map_filter_simps)

text \<open>
  C7. \<^verbatim>\<open>should_execute_serially\<close> is true exactly for the transforms whose class has
  \<^verbatim>\<open>_GroupByKeyOnly\<close> or \<^verbatim>\<open>_NativeWrite\<close> in its MRO: the two classes and their subclasses.
  It is false for plain \<^verbatim>\<open>Read\<close>, \<^verbatim>\<open>Flatten\<close>, \<^verbatim>\<open>ParDo\<close> and \<^verbatim>\<open>ProcessKeyedElements\<close>
  transforms.
\<close>

theorem should_execute_serially_iff:
  "(should_execute_serially applied \<longleftrightarrow>
      GroupByKeyOnly \<in> set (mro (transform_type applied))
      \<or> NativeWrite \<in> set (mro (transform_type applied)))
   \<and> should_execute_serially (applied\<lparr>transform_type := PyClass GroupByKeyOnly ancestors\<rparr>)
   \<and> should_execute_serially (applied\<lparr>transform_type := PyClass NativeWrite ancestors\<rparr>)
   \<and> should_execute_serially
        (applied\<lparr>transform_type := PyClass (OtherClass name) (GroupByKeyOnly # ancestors)\<rparr>)
   \<and> should_execute_serially
        (applied\<lparr>transform_type := PyClass (OtherClass name) (NativeWrite # ancestors)\<rparr>)
   \<and> \<not> should_execute_serially
        (applied\<lparr>transform_type := PyClass Read [OtherClass ''PTransform'', OtherClass ''object'']\<rparr>)
   \<and> \<not> should_execute_serially
        (applied\<lparr>transform_type := PyClass Flatten [OtherClass ''PTransform'', OtherClass ''object'']\<rparr>)
   \<and> \<not> should_execute_serially
        (applied\<lparr>transform_type := PyClass ParDo [OtherClass ''PTransform'', OtherClass ''object'']\<rparr>)
   \<and> \<not> should_execute_serially
        (applied\<lparr>transform_type :=
            PyClass ProcessKeyedElements [OtherClass ''PTransform'', OtherClass ''object'']\<rparr>)"
  by (simp add: should_execute_serially_def)

section \<open>Properties of the keyed state\<close>

lemma map_fst_map_entry: "map fst (AList.map_entry k f xs) = map fst xs"
  by (induction xs) auto

lemma in_keys_iff: "key \<in> fst ` set table \<longleftrightarrow> (\<exists>st. map_of table key = Some st)"
  using map_of_eq_None_iff [of table key] by auto

lemma map_of_get_keyed_state:
  "map_of (get_keyed_state key table) =
     (map_of table)(key \<mapsto> state_of key table)"
  by (auto simp: get_keyed_state_def state_of_def fun_eq_iff map_add_def
      split: option.splits)

lemma keys_get_keyed_state:
  "map fst (get_keyed_state key table) =
     (if key \<in> set (map fst table) then map fst table else map fst table @ [key])"
  by (auto simp: get_keyed_state_def in_keys_iff split: option.splits)

lemma state_of_get_keyed_state [simp]:
  "state_of key' (get_keyed_state key table) = state_of key' table"
  by (simp add: state_of_def map_of_get_keyed_state)

lemma state_of_add_elements:
  "state_of key' (add_elements key v table) =
     (if key' = key \<and> key \<in> set (map fst table)
      then (state_of key table)\<lparr>elements_state := elements_state (state_of key table) @ [v]\<rparr>
      else state_of key' table)"
  by (auto simp: state_of_def add_elements_def map_of_map_entry in_keys_iff
      split: option.splits)

lemma state_of_add_completed:
  "state_of key' (add_completed key b table) =
     (if key' = key \<and> key \<in> set (map fst table)
      then (state_of key table)\<lparr>completed_state := completed_state (state_of key table) @ [b]\<rparr>
      else state_of key' table)"
  by (auto simp: state_of_def add_completed_def map_of_map_entry in_keys_iff
      split: option.splits)

lemma keys_add_elements [simp]: "map fst (add_elements key v table) = map fst table"
  by (simp add: add_elements_def map_fst_map_entry)

lemma keys_add_completed [simp]: "map fst (add_completed key b table) = map fst table"
  by (simp add: add_completed_def map_fst_map_entry)

section \<open>Properties of the GroupByKeyOnly evaluator\<close>

lemmas example_defs = example_coder_def example_gbk_def example_gbk_evaluator_def kv_def

text \<open>
  C10. Every \<^verbatim>\<open>finish_bundle\<close> call returns normally. Its watermark hold is \<open>+\<infinity>\<close> when
  the input watermark is \<open>+\<infinity>\<close>, whatever the keyed state is (so also when the
  completion flag is already set), and \<open>-\<infinity>\<close> when the input watermark is anything else.
\<close>

theorem gbk_finish_bundle_hold:
  "\<exists>res table1. gbk_finish_bundle self input_watermark table = (Inr res, table1)
     \<and> watermark_hold res =
         Some (if input_watermark = WATERMARK_POS_INF then WATERMARK_POS_INF
               else WATERMARK_NEG_INF)"
  by (simp add: gbk_finish_bundle_def Let_def)

text \<open>
  C4. When the completion flag is already set, a \<^verbatim>\<open>finish_bundle\<close> call with the input
  watermark at \<open>+\<infinity>\<close> returns normally with no output bundle; it adds \<^verbatim>\<open>True\<close> to the
  completion flag once more.
\<close>

theorem gbk_finish_bundle_duplicate_final:
  assumes "get_completed None table"
  shows "\<exists>res. gbk_finish_bundle self WATERMARK_POS_INF table =
             (Inr res, add_completed None True table)
           \<and> uncommitted_output_bundles res = []"
  using assms by (simp add: gbk_finish_bundle_def Let_def)

theorem gbk_finish_bundle_duplicate_final_witness:
  "get_completed None
      [(None, \<lparr>elements_state = [], completed_state = [True]\<rparr>),
       (Some ''a'', \<lparr>elements_state = [''x''], completed_state = []\<rparr>)]
   \<and> fst (gbk_finish_bundle example_gbk_evaluator WATERMARK_POS_INF
        [(None, \<lparr>elements_state = [], completed_state = [True]\<rparr>),
         (Some ''a'', \<lparr>elements_state = [''x''], completed_state = []\<rparr>)])
      = Inr \<lparr>result_transform = ''GroupByKey'', uncommitted_output_bundles = [],
             watermark_hold = Some WATERMARK_POS_INF\<rparr>"
  using gbk_finish_bundle_duplicate_final [of
      "[(None, \<lparr>elements_state = [], completed_state = [True]\<rparr>),
        (Some ''a'', \<lparr>elements_state = [''x''], completed_state = []\<rparr>)]"
      example_gbk_evaluator]
  by (simp add: example_defs gbk_finish_bundle_def get_completed_def state_of_def)

lemma gbk_process_element_cases:
  assumes "\<not> get_completed None table"
  shows "(\<forall>k v. pair_of el = Some (k, v) \<longrightarrow>
            (\<exists>table1. gbk_process_element self el table = (Inr (), table1)
               \<and> get_elements (Some (encode (key_coder self) k)) table1 =
                   get_elements (Some (encode (key_coder self) k)) table @ [v]
               \<and> (\<forall>key. key \<noteq> Some (encode (key_coder self) k) \<longrightarrow>
                     state_of key table1 = state_of key table)))
       \<and> (pair_of el = None \<longrightarrow>
            (\<exists>err. gbk_process_element self el table = (Inl err, table)
               \<and> (err = TypeCheckError \<or> err = TypeError)))"
proof (intro conjI allI impI)
  fix k v
  assume p: "pair_of el = Some (k, v)"
  then obtain wv where el: "el = Windowed wv" by (cases el) auto
  from p el have it: "is_iterable (wv_value wv)" and len: "py_len (wv_value wv) = Inr 2"
    and k: "k = py_items (wv_value wv) ! 0" and v: "v = py_items (wv_value wv) ! 1"
    by (auto split: if_splits)
  show "\<exists>table1. gbk_process_element self el table = (Inr (), table1)
               \<and> get_elements (Some (encode (key_coder self) k)) table1 =
                   get_elements (Some (encode (key_coder self) k)) table @ [v]
               \<and> (\<forall>key. key \<noteq> Some (encode (key_coder self) k) \<longrightarrow>
                     state_of key table1 = state_of key table)"
    using assms el it len k v
    by (simp add: gbk_process_element_def Let_def get_elements_def state_of_add_elements
        keys_get_keyed_state)
next
  assume n: "pair_of el = None"
  have e: "raise_type_check_error el = TypeCheckError \<or> raise_type_check_error el = TypeError"
    by (cases el rule: raise_type_check_error.cases) simp_all
  show "\<exists>err. gbk_process_element self el table = (Inl err, table)
               \<and> (err = TypeCheckError \<or> err = TypeError)"
  proof (cases el)
    case (Windowed wv)
    with n assms e show ?thesis
      by (cases "wv_value wv")
         (auto simp: gbk_process_element_def split: if_splits)
  next
    case (NotWindowed x)
    with assms e show ?thesis
      by (simp add: gbk_process_element_def)
  qed
qed

text \<open>
  C6. While the completion flag is unset, \<^verbatim>\<open>process_element\<close> is to raise \<^verbatim>\<open>TypeCheckError\<close>
  for every element that is not a windowed pair. The code does not: for an element that
  is a bare pair \<open>(k, v)\<close>, not wrapped as a windowed value, building the message with
  \<^verbatim>\<open>%\<close> raises \<^verbatim>\<open>TypeError\<close>; and for a windowed value whose payload is an iterable without
  \<^verbatim>\<open>len\<close>, the length test raises \<^verbatim>\<open>TypeError\<close>. The keyed state is unchanged in both cases.
\<close>

theorem gbk_process_element_raises_TypeError:
  "\<not> get_completed None [(None, new_state :: string unmerged_state)]
   \<and> gbk_process_element example_gbk_evaluator (NotWindowed (Tuple [''a'', ''x'']))
        [(None, new_state)]
       = (Inl TypeError, [(None, new_state)])
   \<and> gbk_process_element example_gbk_evaluator
        (Windowed (GlobalWindows_windowed_value Unsized)) [(None, new_state)]
       = (Inl TypeError, [(None, new_state)])"
  by (simp add: example_defs gbk_process_element_def get_completed_def state_of_def
      new_state_def GlobalWindows_windowed_value_def)

section \<open>Properties of the bounded-read evaluator\<close>

lemma split_loop_pcollection:
  assumes "bundle_pcollection cur = pc" and "\<forall>b \<in> set closed. bundle_pcollection b = pc"
  shows "\<forall>b \<in> set (split_loop cap size_fn pc es closed cur sz). bundle_pcollection b = pc"
  using assms
proof (induction es arbitrary: closed cur sz)
  case Nil
  then show ?case by simp
next
  case (Cons e es)
  have new: "\<forall>b \<in> set (split_loop cap size_fn pc es (closed @ [cur])
                 (bundle_output (create_bundle pc) e) (0 + size_fn e)). bundle_pcollection b = pc"
    using Cons.prems by (intro Cons.IH) (simp_all add: bundle_output_def create_bundle_def)
  have same: "\<forall>b \<in> set (split_loop cap size_fn pc es closed (bundle_output cur e)
                 (sz + size_fn e)). bundle_pcollection b = pc"
    using Cons.prems by (intro Cons.IH) (simp_all add: bundle_output_def)
  show ?case
    using new same by (simp del: cap_reached.simps)
qed

lemma bounded_read_finish_bundle_eq:
  "bounded_read_finish_bundle self =
     (case br_outputs self of
        [output_pc] \<Rightarrow>
          (case default_read (br_source self) of
             Inl err \<Rightarrow> Inl err
           | Inr reader \<Rightarrow>
               Inr \<lparr>result_transform = full_label (br_applied_ptransform self),
                    uncommitted_output_bundles = read_values_to_bundles output_pc reader,
                    watermark_hold = None\<rparr>)
      | _ \<Rightarrow> Inl AssertionError)"
  by (cases "br_source self") (simp_all add: bounded_read_finish_bundle_def split: list.splits)

lemma read_values_to_bundles_props:
  "concat (map bundle_elements (read_values_to_bundles pc vs)) = map GlobalWindows_windowed_value vs"
  "\<forall>b \<in> set (read_values_to_bundles pc vs). length (bundle_elements b) \<le> 1000"
  "\<forall>b \<in> set (read_values_to_bundles pc vs). bundle_pcollection b = pc"
  "read_values_to_bundles pc vs \<noteq> []"
proof -
  show "concat (map bundle_elements (read_values_to_bundles pc vs)) = map GlobalWindows_windowed_value vs"
    by (simp add: read_values_to_bundles_def split_list_into_bundles_def split_loop_concat
        create_bundle_def)
  have "\<forall>b \<in> set (split_loop (Some 1000) (\<lambda>_. 1) pc (map GlobalWindows_windowed_value vs) []
                     (create_bundle pc) 0). int (length (bundle_elements b)) \<le> 1000"
    by (intro split_loop_bound) (simp_all add: create_bundle_def)
  then show "\<forall>b \<in> set (read_values_to_bundles pc vs). length (bundle_elements b) \<le> 1000"
    by (simp add: read_values_to_bundles_def split_list_into_bundles_def unit_size_eq
        MAX_ELEMENT_PER_BUNDLE_def)
  show "\<forall>b \<in> set (read_values_to_bundles pc vs). bundle_pcollection b = pc"
    unfolding read_values_to_bundles_def split_list_into_bundles_def Let_def
    by (intro split_loop_pcollection) (simp_all add: create_bundle_def)
  show "read_values_to_bundles pc vs \<noteq> []"
    by (simp add: read_values_to_bundles_def split_list_into_bundles_def split_loop_nonempty)
qed

text \<open>
  C8. The constructor of the bounded-read evaluator returns an evaluator exactly when no
  input bundle and no side inputs are passed. For an evaluator with one output
  PCollection whose source can be read, \<^verbatim>\<open>finish_bundle\<close> returns a result without a
  watermark hold whose bundles hold, in order, every value of the source's default range
  wrapped as a global-window value; each bundle belongs to the output PCollection and has
  at most 1000 elements.
\<close>

theorem bounded_read_spec:
  "(\<forall>self. bounded_read_init applied input_bundle side_inputs_arg = Inr self \<longrightarrow>
       input_bundle = None \<and> side_inputs_arg = [] \<and> br_source self = transform applied
       \<and> br_outputs self = expand_outputs applied)
   \<and> (input_bundle = None \<and> side_inputs_arg = [] \<longrightarrow>
       (\<exists>self. bounded_read_init applied input_bundle side_inputs_arg = Inr self))
   \<and> (\<forall>pc vs. br_outputs self = [pc] \<and> default_read (br_source self) = Inr vs \<longrightarrow>
       (\<exists>res. bounded_read_finish_bundle self = Inr res
          \<and> watermark_hold res = None
          \<and> concat (map bundle_elements (uncommitted_output_bundles res)) =
               map GlobalWindows_windowed_value vs
          \<and> (\<forall>b \<in> set (uncommitted_output_bundles res).
                length (bundle_elements b) \<le> 1000 \<and> bundle_pcollection b = pc)))"
proof (intro conjI allI impI)
  fix pc vs
  assume a: "br_outputs self = [pc] \<and> default_read (br_source self) = Inr vs"
  show "\<exists>res. bounded_read_finish_bundle self = Inr res
          \<and> watermark_hold res = None
          \<and> concat (map bundle_elements (uncommitted_output_bundles res)) =
               map GlobalWindows_windowed_value vs
          \<and> (\<forall>b \<in> set (uncommitted_output_bundles res).
                length (bundle_elements b) \<le> 1000 \<and> bundle_pcollection b = pc)"
    using a read_values_to_bundles_props [of pc vs]
    by (simp add: bounded_read_finish_bundle_eq)
qed (auto simp: bounded_read_init_def split: if_splits)

theorem bounded_read_spec_witness:
  "(\<exists>self. bounded_read_init example_read (None :: unit option) [] = Inr self
      \<and> br_outputs self = [''lines'']
      \<and> default_read (br_source self) = Inr [7, 8, 9]
      \<and> bounded_read_finish_bundle self =
          Inr \<lparr>result_transform = ''Read'',
               uncommitted_output_bundles =
                 [\<lparr>bundle_pcollection = ''lines'',
                   bundle_elements = map GlobalWindows_windowed_value [7, 8, 9]\<rparr>],
               watermark_hold = None\<rparr>)
   \<and> bounded_read_init example_read (Some ()) [] = Inl AssertionError
   \<and> bounded_read_init example_read (None :: unit option) [''side''] = Inl AssertionError"
  using bounded_read_spec [of example_read "None :: unit option" "[]"
      "\<lparr>br_applied_ptransform = example_read, br_source = transform example_read,
        br_outputs = expand_outputs example_read\<rparr>"]
  by (simp add: bounded_read_init_def example_read_def expand_outputs_def
      bounded_read_finish_bundle_def read_values_to_bundles_def split_list_into_bundles_def
      MAX_ELEMENT_PER_BUNDLE_def unit_size_def bundle_output_def create_bundle_def)

section \<open>Properties of the splittable process-element invoker\<close>

text \<open>
  C9. For an invoker and a tracker of the asserted classes: if the user's process logic
  raises, \<^verbatim>\<open>invoke_process_element\<close> raises the same error; if it returns, the outcome is
  that of \<^verbatim>\<open>check_done\<close> on the tracker as the process logic left it. So the invocation
  returns normally only if the process logic returned and \<^verbatim>\<open>check_done\<close> accepted the
  tracker afterwards.
\<close>

theorem invoke_process_element_spec:
  assumes "invoker_is_DoFnInvoker invoker" and "tracker_is_RestrictionTracker tracker"
  shows "(\<forall>err t1. invoke_process invoker el (tracker_state tracker) = (Inl err, t1) \<longrightarrow>
            invoke_process_element invoker el tracker = (Inl err, t1))
       \<and> (\<forall>t1. invoke_process invoker el (tracker_state tracker) = (Inr (), t1) \<longrightarrow>
            invoke_process_element invoker el tracker = (check_done tracker t1, t1))
       \<and> (fst (invoke_process_element invoker el tracker) = Inr () \<longrightarrow>
            (\<exists>t1. invoke_process invoker el (tracker_state tracker) = (Inr (), t1)
               \<and> check_done tracker t1 = Inr ()))"
  using assms
  by (auto simp: invoke_process_element_def split: prod.splits sum.splits)

theorem invoke_process_element_spec_witness:
  "invoker_is_DoFnInvoker example_invoker \<and> tracker_is_RestrictionTracker example_tracker
   \<and> invoke_process_element example_invoker 4 example_tracker = (Inl (OtherError ''ValueError''), 4)
   \<and> invoke_process_element example_invoker 10 example_tracker = (Inr (), 10)"
  using invoke_process_element_spec [of example_invoker example_tracker 4]
    invoke_process_element_spec [of example_invoker example_tracker 10]
  by (simp add: example_invoker_def example_tracker_def invoke_process_element_def)

section \<open>The GroupByKeyOnly step over a sequence of bundles\<close>

lemma get_completed_get_keyed_state [simp]:
  "get_completed key' (get_keyed_state key table) = get_completed key' table"
  by (simp add: get_completed_def)

lemma get_elements_get_keyed_state [simp]:
  "get_elements key' (get_keyed_state key table) = get_elements key' table"
  by (simp add: get_elements_def)

lemma gbk_inv_empty: "gbk_inv c [] []"
  by (simp add: gbk_inv_def get_completed_def get_elements_def state_of_def new_state_def)

lemma gbk_inv_start:
  assumes "gbk_inv c table kvs"
  shows "gbk_inv c (get_keyed_state None table) kvs"
  using assms by (auto simp: gbk_inv_def keys_get_keyed_state)

lemma gbk_inv_step:
  assumes "gbk_inv c table kvs"
  shows "gbk_inv c (add_elements (Some (encode c k)) v (get_keyed_state (Some (encode c k)) table))
           (kvs @ [(k, v)])"
proof -
  let ?ek = "encode c k"
  let ?t1 = "get_keyed_state (Some ?ek) table"
  let ?t2 = "add_elements (Some ?ek) v ?t1"
  have keys2: "map fst ?t2 =
      (if Some ?ek \<in> set (map fst table) then map fst table else map fst table @ [Some ?ek])"
    by (simp add: keys_get_keyed_state)
  have in1: "Some ?ek \<in> set (map fst ?t1)"
    by (simp add: keys_get_keyed_state)
  have d: "distinct (map fst ?t2)"
    using assms unfolding keys2 by (simp add: gbk_inv_def)
  have c: "\<not> get_completed None ?t2"
    using assms by (simp add: gbk_inv_def get_completed_def state_of_add_elements)
  have k: "Some ek \<in> set (map fst ?t2) \<longleftrightarrow> ek \<in> encode c ` fst ` set (kvs @ [(k, v)])" for ek
    using assms unfolding keys2 by (auto simp: gbk_inv_def)
  have e: "get_elements (Some ek) ?t2 =
             map snd (filter (\<lambda>kv. encode c (fst kv) = ek) (kvs @ [(k, v)]))" for ek
  proof (cases "ek = ?ek")
    case True
    have "get_elements (Some ?ek) ?t2 = get_elements (Some ?ek) table @ [v]"
      using in1 by (simp add: get_elements_def state_of_add_elements)
    with True assms show ?thesis by (simp add: gbk_inv_def)
  next
    case False
    then have "get_elements (Some ek) ?t2 = get_elements (Some ek) table"
      by (simp add: get_elements_def state_of_add_elements)
    with False assms show ?thesis by (auto simp: gbk_inv_def)
  qed
  show ?thesis
    unfolding gbk_inv_def using d c k e by blast
qed

lemma gbk_process_element_pair:
  assumes "\<not> get_completed None table" and "pair_of el = Some (k, v)"
  shows "gbk_process_element self el table =
           (Inr (), add_elements (Some (encode (key_coder self) k)) v
                      (get_keyed_state (Some (encode (key_coder self) k)) table))"
  using assms
  by (cases el) (auto simp: gbk_process_element_def Let_def split: if_splits)

lemma gbk_process_elements_pairs:
  assumes "gbk_inv (key_coder self) table kvs"
    and "\<forall>el \<in> set els. pair_of el \<noteq> None"
  shows "\<exists>table1. gbk_process_elements self els table = (Inr (), table1)
           \<and> gbk_inv (key_coder self) table1 (kvs @ pairs_of els)"
  using assms
proof (induction els arbitrary: table kvs)
  case Nil
  then show ?case by (simp add: pairs_of_def List.map_filter_simps)
next
  case (Cons el els)
  from Cons.prems(2) obtain k v where p: "pair_of el = Some (k, v)" by auto
  let ?t1 = "add_elements (Some (encode (key_coder self) k)) v
               (get_keyed_state (Some (encode (key_coder self) k)) table)"
  have nc: "\<not> get_completed None table"
    using Cons.prems(1) by (simp add: gbk_inv_def)
  have step: "gbk_process_element self el table = (Inr (), ?t1)"
    using nc p by (rule gbk_process_element_pair)
  have inv1: "gbk_inv (key_coder self) ?t1 (kvs @ [(k, v)])"
    using Cons.prems(1) by (rule gbk_inv_step)
  from Cons.prems(2) have rest: "\<forall>el \<in> set els. pair_of el \<noteq> None" by simp
  from Cons.IH [OF inv1 rest]
  obtain table1 where r: "gbk_process_elements self els ?t1 = (Inr (), table1)"
    and i: "gbk_inv (key_coder self) table1 ((kvs @ [(k, v)]) @ pairs_of els)"
    by blast
  have "pairs_of (el # els) = (k, v) # pairs_of els"
    using p by (simp add: pairs_of_def List.map_filter_simps)
  with step r i show ?case by simp
qed

lemma pairs_of_append: "pairs_of (xs @ ys) = pairs_of xs @ pairs_of ys"
  by (simp add: pairs_of_def List.map_filter_def)

lemma keyset_get_keyed_state:
  "fst ` set (get_keyed_state key table) = insert key (fst ` set table)"
proof -
  have "set (map fst (get_keyed_state key table)) = insert key (set (map fst table))"
    unfolding keys_get_keyed_state by auto
  then show ?thesis by simp
qed

lemma keyset_add_elements: "fst ` set (add_elements key v table) = fst ` set table"
  by (simp add: add_elements_def dom_map_entry)

lemma gbk_process_element_keys:
  "fst ` set table \<subseteq> fst ` set (snd (gbk_process_element self el table))"
  by (simp add: gbk_process_element_def Let_def keyset_get_keyed_state keyset_add_elements
      subset_insertI split: element.split sum.split)

lemma gbk_init_ok:
  assumes "side_inputs applied = [] \<and> expand_outputs applied = [pc]"
  shows "gbk_init applied (side_inputs applied) table =
           (Inr \<lparr>gbk_applied_ptransform = applied, output_pcollection = pc,
                 key_coder = transform applied\<rparr>, get_keyed_state None table)"
  using assms by (simp add: gbk_init_def gbk_start_bundle_def)

lemma gbk_evaluate_not_final:
  assumes "side_inputs applied = [] \<and> expand_outputs applied = [pc]"
    and "gbk_inv (transform applied) table kvs"
    and "\<forall>el \<in> set (delivered_elements d). pair_of el \<noteq> None"
    and "input_watermark_at_finish d \<noteq> WATERMARK_POS_INF"
  shows "\<exists>res table1. gbk_evaluate applied d table = (Inr res, table1)
           \<and> uncommitted_output_bundles res = []
           \<and> gbk_inv (transform applied) table1 (kvs @ pairs_of (delivered_elements d))"
proof -
  let ?self = "\<lparr>gbk_applied_ptransform = applied, output_pcollection = pc,
                key_coder = transform applied\<rparr>"
  have inv0: "gbk_inv (key_coder ?self) (get_keyed_state None table) kvs"
    using assms(2) by (simp add: gbk_inv_start)
  from gbk_process_elements_pairs [OF inv0 assms(3)]
  obtain table1 where p: "gbk_process_elements ?self (delivered_elements d)
                            (get_keyed_state None table) = (Inr (), table1)"
    and i: "gbk_inv (transform applied) table1 (kvs @ pairs_of (delivered_elements d))"
    by auto
  show ?thesis
    using p i assms(4) by (simp add: gbk_evaluate_def gbk_init_ok [OF assms(1)] gbk_finish_bundle_def)
qed

lemma gbk_run_not_final:
  assumes "side_inputs applied = [] \<and> expand_outputs applied = [pc]"
    and "gbk_inv (transform applied) table kvs"
    and "\<forall>d \<in> set ds. input_watermark_at_finish d \<noteq> WATERMARK_POS_INF
           \<and> (\<forall>el \<in> set (delivered_elements d). pair_of el \<noteq> None)"
  shows "\<exists>rs table1. gbk_run applied ds table = (Inr rs, table1)
           \<and> length rs = length ds
           \<and> (\<forall>res \<in> set rs. uncommitted_output_bundles res = [])
           \<and> gbk_inv (transform applied) table1
                (kvs @ pairs_of (concat (map delivered_elements ds)))"
  using assms(2,3)
proof (induction ds arbitrary: table kvs)
  case Nil
  then show ?case by (simp add: pairs_of_def List.map_filter_simps)
next
  case (Cons d ds)
  have els: "\<forall>el \<in> set (delivered_elements d). pair_of el \<noteq> None"
    and nf: "input_watermark_at_finish d \<noteq> WATERMARK_POS_INF"
    using Cons.prems(2) by simp_all
  from gbk_evaluate_not_final [OF assms(1) Cons.prems(1) els nf]
  obtain res table1 where ev: "gbk_evaluate applied d table = (Inr res, table1)"
    and b: "uncommitted_output_bundles res = []"
    and i: "gbk_inv (transform applied) table1 (kvs @ pairs_of (delivered_elements d))"
    by blast
  have rest: "\<forall>d \<in> set ds. input_watermark_at_finish d \<noteq> WATERMARK_POS_INF
           \<and> (\<forall>el \<in> set (delivered_elements d). pair_of el \<noteq> None)"
    using Cons.prems(2) by simp
  from Cons.IH [OF i rest]
  obtain rs table2 where run: "gbk_run applied ds table1 = (Inr rs, table2)"
    and l: "length rs = length ds"
    and bs: "\<forall>res \<in> set rs. uncommitted_output_bundles res = []"
    and i2: "gbk_inv (transform applied) table2
               ((kvs @ pairs_of (delivered_elements d)) @
                pairs_of (concat (map delivered_elements ds)))"
    by blast
  show ?case
    using ev b run l bs i2 by (simp add: pairs_of_append)
qed

lemma gbk_result_loop_eq:
  "gbk_result_loop self table keys acc =
     acc @ map (\<lambda>ek. GlobalWindows_windowed_value
                        (decode (key_coder self) ek, get_elements (Some ek) table))
             (List.map_filter (\<lambda>key. key) keys)"
  by (induction self table keys acc rule: gbk_result_loop.induct)
     (simp_all add: List.map_filter_simps Let_def)

lemma set_map_filter_id: "set (List.map_filter (\<lambda>key. key) keys) = {ek. Some ek \<in> set keys}"
  by (induction keys) (auto simp: List.map_filter_simps split: option.splits)

lemma distinct_map_filter_id:
  "distinct keys \<Longrightarrow> distinct (List.map_filter (\<lambda>key. key) keys)"
  by (induction keys) (auto simp: List.map_filter_simps set_map_filter_id split: option.splits)

lemma get_completed_add_completed:
  "None \<in> set (map fst table) \<Longrightarrow> get_completed None (add_completed None True table)"
  by (simp add: get_completed_def state_of_add_completed)

lemma gbk_evaluate_final:
  assumes "side_inputs applied = [] \<and> expand_outputs applied = [pc]"
    and "gbk_inv (transform applied) table kvs"
    and "\<forall>el \<in> set (delivered_elements d). pair_of el \<noteq> None"
    and "input_watermark_at_finish d = WATERMARK_POS_INF"
  shows "\<exists>res table1 table2. gbk_evaluate applied d table = (Inr res, table2)
           \<and> gbk_inv (transform applied) table1 (kvs @ pairs_of (delivered_elements d))
           \<and> uncommitted_output_bundles res =
               [\<lparr>bundle_pcollection = pc,
                 bundle_elements =
                   map (\<lambda>ek. GlobalWindows_windowed_value
                                (decode (transform applied) ek, get_elements (Some ek) table1))
                     (List.map_filter (\<lambda>key. key) (map fst table1))\<rparr>]
           \<and> get_completed None table2"
proof -
  let ?self = "\<lparr>gbk_applied_ptransform = applied, output_pcollection = pc,
                key_coder = transform applied\<rparr>"
  let ?t0 = "get_keyed_state None table"
  have inv0: "gbk_inv (key_coder ?self) ?t0 kvs"
    using assms(2) by (simp add: gbk_inv_start)
  from gbk_process_elements_pairs [OF inv0 assms(3)]
  obtain table1 where p: "gbk_process_elements ?self (delivered_elements d) ?t0 = (Inr (), table1)"
    and i: "gbk_inv (transform applied) table1 (kvs @ pairs_of (delivered_elements d))"
    by auto
  have nc: "\<not> get_completed None table1"
    using i by (simp add: gbk_inv_def)
  have keys_mono: "None \<in> set (map fst t1)"
    if "gbk_process_elements ?self els t = (Inr (), t1)" and "None \<in> set (map fst t)"
    for els t t1
    using that
  proof (induction els arbitrary: t)
    case Nil
    then show ?case by simp
  next
    case (Cons el els)
    obtain r t' where st: "gbk_process_element ?self el t = (r, t')"
      by (cases "gbk_process_element ?self el t")
    with Cons.prems(1) obtain u where r: "r = Inr u"
      by (cases r) auto
    have "None \<in> set (map fst t')"
      using gbk_process_element_keys [of t ?self el] st Cons.prems(2) by auto
    moreover have "gbk_process_elements ?self els t' = (Inr (), t1)"
      using Cons.prems(1) st r by simp
    ultimately show ?case by (rule Cons.IH [rotated])
  qed
  have "None \<in> set (map fst ?t0)"
    by (simp add: keys_get_keyed_state)
  with p have g: "None \<in> set (map fst table1)" by (rule keys_mono)
  have flag: "get_completed None (add_completed None True table1)"
    using g by (rule get_completed_add_completed)
  let ?res = "\<lparr>result_transform = full_label applied,
               uncommitted_output_bundles =
                 [\<lparr>bundle_pcollection = pc,
                   bundle_elements =
                     map (\<lambda>ek. GlobalWindows_windowed_value
                                  (decode (transform applied) ek, get_elements (Some ek) table1))
                       (List.map_filter (\<lambda>key. key) (map fst table1))\<rparr>],
               watermark_hold = Some WATERMARK_POS_INF\<rparr>"
  have ev: "gbk_evaluate applied d table = (Inr ?res, add_completed None True table1)"
    using p nc assms(4)
    by (simp add: gbk_evaluate_def gbk_init_ok [OF assms(1)] gbk_finish_bundle_def Let_def
        split_list_into_bundles_def split_loop_None create_bundle_def gbk_result_loop_eq)
  show ?thesis
    by (rule exI [of _ ?res], rule exI [of _ table1],
        rule exI [of _ "add_completed None True table1"])
       (simp add: ev i flag)
qed

lemma gbk_evaluate_after_completion:
  assumes "side_inputs applied = [] \<and> expand_outputs applied = [pc]"
    and "get_completed None table"
    and "delivered_elements d = []"
  shows "\<exists>res table1. gbk_evaluate applied d table = (Inr res, table1)
           \<and> uncommitted_output_bundles res = []
           \<and> get_completed None table1"
proof -
  have "None \<in> set (map fst table)"
  proof (rule ccontr)
    assume "None \<notin> set (map fst table)"
    then have "map_of table None = None"
      by (simp add: map_of_eq_None_iff)
    with assms(2) show False
      by (simp add: get_completed_def state_of_def new_state_def)
  qed
  then have "get_completed None (add_completed None True (get_keyed_state None table))"
    by (intro get_completed_add_completed) (simp add: keys_get_keyed_state)
  then show ?thesis
    using assms(2,3)
    by (simp add: gbk_evaluate_def gbk_init_ok [OF assms(1)] gbk_finish_bundle_def Let_def)
qed

lemma gbk_run_after_completion:
  assumes "side_inputs applied = [] \<and> expand_outputs applied = [pc]"
    and "get_completed None table"
    and "\<forall>d \<in> set ds. delivered_elements d = []"
  shows "\<exists>rs table1. gbk_run applied ds table = (Inr rs, table1)
           \<and> length rs = length ds
           \<and> (\<forall>res \<in> set rs. uncommitted_output_bundles res = [])"
  using assms(2,3)
proof (induction ds arbitrary: table)
  case Nil
  then show ?case by simp
next
  case (Cons d ds)
  have e: "delivered_elements d = []" using Cons.prems(2) by simp
  from gbk_evaluate_after_completion [OF assms(1) Cons.prems(1) e]
  obtain res table1 where ev: "gbk_evaluate applied d table = (Inr res, table1)"
    and b: "uncommitted_output_bundles res = []"
    and c: "get_completed None table1"
    by blast
  have rest: "\<forall>d \<in> set ds. delivered_elements d = []" using Cons.prems(2) by simp
  from Cons.IH [OF c rest]
  obtain rs table2 where run: "gbk_run applied ds table1 = (Inr rs, table2)"
    and l: "length rs = length ds"
    and bs: "\<forall>res \<in> set rs. uncommitted_output_bundles res = []"
    by blast
  show ?case using ev b run l bs by simp
qed

lemma gbk_run_append:
  "gbk_run applied (xs @ ys) table =
     (case gbk_run applied xs table of
        (Inl err, table1) \<Rightarrow> (Inl err, table1)
      | (Inr rs, table1) \<Rightarrow>
          (case gbk_run applied ys table1 of
             (Inl err, table2) \<Rightarrow> (Inl err, table2)
           | (Inr rs', table2) \<Rightarrow> (Inr (rs @ rs'), table2)))"
  by (induction xs arbitrary: table) (auto split: prod.splits sum.splits)

lemma emitted_no_bundles:
  "\<forall>res \<in> set rs. uncommitted_output_bundles res = [] \<Longrightarrow> emitted rs = []"
  by (induction rs) (simp_all add: emitted_def)

lemma emitted_append: "emitted (xs @ ys) = emitted xs @ emitted ys"
  by (simp add: emitted_def)

lemma gbk_records_props:
  assumes inv: "gbk_inv c table kvs"
    and coder: "\<forall>k. decode c (encode c k) = k"
  shows "distinct (map (\<lambda>r. fst (wv_value r))
            (map (\<lambda>ek. GlobalWindows_windowed_value (decode c ek, get_elements (Some ek) table))
               (List.map_filter (\<lambda>key. key) (map fst table))))"
    and "set (map (\<lambda>r. fst (wv_value r))
            (map (\<lambda>ek. GlobalWindows_windowed_value (decode c ek, get_elements (Some ek) table))
               (List.map_filter (\<lambda>key. key) (map fst table)))) = fst ` set kvs"
    and "\<forall>r \<in> set (map (\<lambda>ek. GlobalWindows_windowed_value
                                 (decode c ek, get_elements (Some ek) table))
                     (List.map_filter (\<lambda>key. key) (map fst table))).
           r = GlobalWindows_windowed_value
                 (fst (wv_value r), values_of_key (fst (wv_value r)) kvs)"
proof -
  let ?eks = "List.map_filter (\<lambda>key. key) (map fst table)"
  have inj: "encode c a = encode c b \<longleftrightarrow> a = b" for a b
    using coder by metis
  have d: "distinct ?eks"
    using inv by (intro distinct_map_filter_id) (simp add: gbk_inv_def)
  have s: "set ?eks = encode c ` fst ` set kvs"
    using inv unfolding set_map_filter_id gbk_inv_def by blast
  have keys: "map (\<lambda>r. fst (wv_value r))
            (map (\<lambda>ek. GlobalWindows_windowed_value (decode c ek, get_elements (Some ek) table))
               ?eks) = map (decode c) ?eks"
    by (simp add: GlobalWindows_windowed_value_def comp_def)
  have "inj_on (decode c) (set ?eks)"
    unfolding s by (rule inj_onI) (use coder in auto)
  with d show "distinct (map (\<lambda>r. fst (wv_value r))
            (map (\<lambda>ek. GlobalWindows_windowed_value (decode c ek, get_elements (Some ek) table))
               ?eks))"
    unfolding keys by (simp add: distinct_map)
  have "decode c ` encode c ` fst ` set kvs = fst ` set kvs"
    using coder by (simp add: image_image)
  then show "set (map (\<lambda>r. fst (wv_value r))
            (map (\<lambda>ek. GlobalWindows_windowed_value (decode c ek, get_elements (Some ek) table))
               ?eks)) = fst ` set kvs"
    unfolding keys by (simp add: s)
  have vals: "get_elements (Some (encode c k)) table = values_of_key k kvs" for k
  proof -
    have "get_elements (Some (encode c k)) table =
            map snd (filter (\<lambda>kv. encode c (fst kv) = encode c k) kvs)"
      using inv by (simp add: gbk_inv_def)
    then show ?thesis by (simp add: inj values_of_key_def)
  qed
  show "\<forall>r \<in> set (map (\<lambda>ek. GlobalWindows_windowed_value
                                 (decode c ek, get_elements (Some ek) table)) ?eks).
           r = GlobalWindows_windowed_value
                 (fst (wv_value r), values_of_key (fst (wv_value r)) kvs)"
  proof
    fix r
    assume "r \<in> set (map (\<lambda>ek. GlobalWindows_windowed_value
                                 (decode c ek, get_elements (Some ek) table)) ?eks)"
    then obtain ek where ek: "ek \<in> set ?eks"
      and r: "r = GlobalWindows_windowed_value (decode c ek, get_elements (Some ek) table)"
      by auto
    from ek s obtain k where k: "ek = encode c k" by auto
    show "r = GlobalWindows_windowed_value
                 (fst (wv_value r), values_of_key (fst (wv_value r)) kvs)"
      using r k coder vals [of k] by (simp add: GlobalWindows_windowed_value_def)
  qed
qed

lemmas gbk_eval_defs =
  gbk_evaluate_def gbk_init_def gbk_start_bundle_def expand_outputs_def get_keyed_state_def
  new_state_def gbk_process_element_def get_completed_def state_of_def add_elements_def
  gbk_finish_bundle_def add_completed_def split_list_into_bundles_def get_elements_def
  GlobalWindows_windowed_value_def create_bundle_def bundle_output_def Let_def

text \<open>
  C1. A \<^verbatim>\<open>_GroupByKeyOnly\<close> step without side inputs, with one output and a key coder
  that decodes what it encodes, starts on an empty keyed state and receives bundles of windowed key-value
  pairs whose \<^verbatim>\<open>finish_bundle\<close> calls see an input watermark below \<open>+\<infinity>\<close>, then one whose
  call sees \<open>+\<infinity>\<close>, then any number of empty bundles. Then every evaluation returns
  normally; the calls before the watermark reaches \<open>+\<infinity>\<close> emit no bundle; and the
  records emitted over all calls carry each encountered key exactly once, each with the
  values appended for that key, in append order.
\<close>

theorem gbk_exactly_once:
  assumes no_side: "side_inputs applied = []"
    and one_out: "expand_outputs applied = [pc]"
    and coder: "\<forall>k. decode (transform applied) (encode (transform applied) k) = k"
    and pre: "\<forall>d \<in> set pre. input_watermark_at_finish d \<noteq> WATERMARK_POS_INF"
    and fin: "input_watermark_at_finish fin = WATERMARK_POS_INF"
    and pairs: "\<forall>d \<in> set (pre @ [fin]). \<forall>el \<in> set (delivered_elements d). pair_of el \<noteq> None"
    and post: "\<forall>d \<in> set post. delivered_elements d = []"
  shows "\<exists>rs table. gbk_run applied (pre @ fin # post) [] = (Inr rs, table)
           \<and> length rs = length pre + 1 + length post
           \<and> (\<forall>res \<in> set (take (length pre) rs). uncommitted_output_bundles res = [])
           \<and> distinct (map (\<lambda>r. fst (wv_value r)) (emitted rs))
           \<and> set (map (\<lambda>r. fst (wv_value r)) (emitted rs)) =
               fst ` set (pairs_of (concat (map delivered_elements (pre @ [fin]))))
           \<and> (\<forall>r \<in> set (emitted rs).
                 r = GlobalWindows_windowed_value
                       (fst (wv_value r),
                        values_of_key (fst (wv_value r))
                          (pairs_of (concat (map delivered_elements (pre @ [fin]))))))"
proof -
  let ?c = "transform applied"
  let ?kvs = "pairs_of (concat (map delivered_elements (pre @ [fin])))"
  have outs: "side_inputs applied = [] \<and> expand_outputs applied = [pc]"
    using no_side one_out by simp
  have pre': "\<forall>d \<in> set pre. input_watermark_at_finish d \<noteq> WATERMARK_POS_INF
           \<and> (\<forall>el \<in> set (delivered_elements d). pair_of el \<noteq> None)"
    using pre pairs by simp
  from gbk_run_not_final [OF outs gbk_inv_empty pre']
  obtain rs1 t1 where run1: "gbk_run applied pre [] = (Inr rs1, t1)"
    and l1: "length rs1 = length pre"
    and b1: "\<forall>res \<in> set rs1. uncommitted_output_bundles res = []"
    and i1: "gbk_inv ?c t1 ([] @ pairs_of (concat (map delivered_elements pre)))"
    by blast
  have finpairs: "\<forall>el \<in> set (delivered_elements fin). pair_of el \<noteq> None"
    using pairs by simp
  from gbk_evaluate_final [OF outs i1 finpairs fin]
  obtain res t1' t2 where ev: "gbk_evaluate applied fin t1 = (Inr res, t2)"
    and i2: "gbk_inv ?c t1' (([] @ pairs_of (concat (map delivered_elements pre)))
                               @ pairs_of (delivered_elements fin))"
    and b2: "uncommitted_output_bundles res =
               [\<lparr>bundle_pcollection = pc,
                 bundle_elements =
                   map (\<lambda>ek. GlobalWindows_windowed_value
                                (decode ?c ek, get_elements (Some ek) t1'))
                     (List.map_filter (\<lambda>key. key) (map fst t1'))\<rparr>]"
    and c2: "get_completed None t2"
    by blast
  have kvs: "([] @ pairs_of (concat (map delivered_elements pre)))
               @ pairs_of (delivered_elements fin) = ?kvs"
    by (simp add: pairs_of_append)
  from gbk_run_after_completion [OF outs c2 post]
  obtain rs3 t3 where run3: "gbk_run applied post t2 = (Inr rs3, t3)"
    and l3: "length rs3 = length post"
    and b3: "\<forall>res \<in> set rs3. uncommitted_output_bundles res = []"
    by blast
  let ?rs = "rs1 @ res # rs3"
  let ?recs = "map (\<lambda>ek. GlobalWindows_windowed_value
                            (decode ?c ek, get_elements (Some ek) t1'))
                 (List.map_filter (\<lambda>key. key) (map fst t1'))"
  have run: "gbk_run applied (pre @ fin # post) [] = (Inr ?rs, t3)"
    using run1 ev run3 by (simp add: gbk_run_append)
  have e2: "emitted [res] = ?recs"
    using b2 by (simp add: emitted_def)
  have "emitted ?rs = emitted rs1 @ emitted [res] @ emitted rs3"
    using emitted_append [of rs1 "[res] @ rs3"] emitted_append [of "[res]" rs3] by simp
  then have em: "emitted ?rs = ?recs"
    by (simp only: emitted_no_bundles [OF b1] emitted_no_bundles [OF b3] e2 append_Nil
        append_Nil2)
  have tk: "take (length pre) ?rs = rs1"
    using l1 by simp
  note props = gbk_records_props [OF i2 [unfolded kvs] coder]
  show ?thesis
  proof (rule exI [of _ ?rs], rule exI [of _ t3], intro conjI)
    show "gbk_run applied (pre @ fin # post) [] = (Inr ?rs, t3)" by (rule run)
    show "length ?rs = length pre + 1 + length post" using l1 l3 by simp
    show "\<forall>res \<in> set (take (length pre) ?rs). uncommitted_output_bundles res = []"
      unfolding tk by (rule b1)
    show "distinct (map (\<lambda>r. fst (wv_value r)) (emitted ?rs))"
      unfolding em by (rule props(1))
    show "set (map (\<lambda>r. fst (wv_value r)) (emitted ?rs)) = fst ` set ?kvs"
      unfolding em by (rule props(2))
    show "\<forall>r \<in> set (emitted ?rs).
            r = GlobalWindows_windowed_value
                  (fst (wv_value r), values_of_key (fst (wv_value r)) ?kvs)"
      unfolding em by (rule props(3))
  qed
qed

theorem gbk_exactly_once_witness:
  "fst (gbk_run example_gbk
         ([\<lparr>delivered_elements = [kv ''a'' ''1'', kv ''b'' ''2''],
            input_watermark_at_finish = WatermarkAt 0,
            output_watermark_at_finish = WATERMARK_NEG_INF\<rparr>]
          @ \<lparr>delivered_elements = [kv ''a'' ''3''],
             input_watermark_at_finish = WATERMARK_POS_INF,
             output_watermark_at_finish = WATERMARK_NEG_INF\<rparr>
          # [\<lparr>delivered_elements = [],
              input_watermark_at_finish = WATERMARK_POS_INF,
              output_watermark_at_finish = WATERMARK_POS_INF\<rparr>]) [])
   = Inr [\<lparr>result_transform = ''GroupByKey'', uncommitted_output_bundles = [],
            watermark_hold = Some WATERMARK_NEG_INF\<rparr>,
          \<lparr>result_transform = ''GroupByKey'',
            uncommitted_output_bundles =
              [\<lparr>bundle_pcollection = ''grouped'',
                bundle_elements =
                  [GlobalWindows_windowed_value (''a'', [''1'', ''3'']),
                   GlobalWindows_windowed_value (''b'', [''2''])]\<rparr>],
            watermark_hold = Some WATERMARK_POS_INF\<rparr>,
          \<lparr>result_transform = ''GroupByKey'', uncommitted_output_bundles = [],
            watermark_hold = Some WATERMARK_POS_INF\<rparr>]"
proof -
  let ?pre = "[\<lparr>delivered_elements = [kv ''a'' ''1'', kv ''b'' ''2''],
                input_watermark_at_finish = WatermarkAt 0,
                output_watermark_at_finish = WATERMARK_NEG_INF\<rparr>]"
  let ?fin = "\<lparr>delivered_elements = [kv ''a'' ''3''],
               input_watermark_at_finish = WATERMARK_POS_INF,
               output_watermark_at_finish = WATERMARK_NEG_INF\<rparr>"
  let ?post = "[\<lparr>delivered_elements = [] :: string element list,
                 input_watermark_at_finish = WATERMARK_POS_INF,
                 output_watermark_at_finish = WATERMARK_POS_INF\<rparr>]"
  have h1: "side_inputs example_gbk = []"
    by (simp add: example_defs)
  have h2: "expand_outputs example_gbk = [''grouped'']"
    by (simp add: example_defs expand_outputs_def)
  have h3: "\<forall>k. decode (transform example_gbk) (encode (transform example_gbk) k) = k"
    by (simp add: example_defs)
  have h4: "\<forall>d \<in> set ?pre. input_watermark_at_finish d \<noteq> WATERMARK_POS_INF"
    by simp
  have h5: "input_watermark_at_finish ?fin = WATERMARK_POS_INF"
    by simp
  have h6: "\<forall>d \<in> set (?pre @ [?fin]). \<forall>el \<in> set (delivered_elements d). pair_of el \<noteq> None"
    by (simp add: example_defs GlobalWindows_windowed_value_def)
  have h7: "\<forall>d \<in> set ?post. delivered_elements d = []"
    by simp
  from gbk_exactly_once [OF h1 h2 h3 h4 h5 h6 h7]
  show ?thesis
    by (simp add: example_defs gbk_eval_defs)
qed

section \<open>The NativeWrite step over a sequence of bundles\<close>

lemma write_loop_eq: "write_loop els written = written @ map wv_value els"
  by (induction els arbitrary: written) simp_all

lemma global_key_get_keyed_state: "None \<in> fst ` set (get_keyed_state None table)"
proof -
  have "None \<in> set (map fst (get_keyed_state None table))"
    by (simp add: keys_get_keyed_state)
  then show ?thesis by simp
qed


lemma get_elements_add_elements_global:
  "None \<in> fst ` set table \<Longrightarrow>
   get_elements None (add_elements None el table) = get_elements None table @ [el]"
  by (simp add: get_elements_def state_of_add_elements)

lemma nw_process_elements_props:
  assumes "None \<in> fst ` set (write_table st)"
  shows "get_elements None (write_table (nw_process_elements self els st)) =
           get_elements None (write_table st) @ els
         \<and> sink_writers (nw_process_elements self els st) = sink_writers st
         \<and> None \<in> fst ` set (write_table (nw_process_elements self els st))"
  using assms
proof (induction els arbitrary: st)
  case Nil
  then show ?case by simp
next
  case (Cons el els)
  let ?st1 = "nw_process_element self el st"
  have k: "None \<in> fst ` set (write_table ?st1)"
    using Cons.prems keys_add_elements [of None el "write_table st"]
    by (simp add: nw_process_element_def del: keys_add_elements) (metis list.set_map)
  have e: "get_elements None (write_table ?st1) = get_elements None (write_table st) @ [el]"
    using Cons.prems by (simp add: nw_process_element_def get_elements_add_elements_global)
  have s: "sink_writers ?st1 = sink_writers st"
    by (simp add: nw_process_element_def)
  from Cons.IH [OF k] e s show ?case by simp
qed

lemma nw_evaluate_not_final:
  assumes "side_inputs applied = [] \<and> transform applied = Some sink"
    and "input_watermark_at_finish d \<noteq> WATERMARK_POS_INF"
  shows "\<exists>res st1. nw_evaluate applied d st = (Inr res, st1)
           \<and> watermark_hold res = Some WATERMARK_NEG_INF
           \<and> sink_writers st1 = sink_writers st
           \<and> get_elements None (write_table st1) =
               get_elements None (write_table st) @ delivered_elements d"
proof -
  let ?st0 = "nw_start_bundle st"
  have k: "None \<in> fst ` set (write_table ?st0)"
    by (simp add: nw_start_bundle_def global_key_get_keyed_state)
  have e0: "get_elements None (write_table ?st0) = get_elements None (write_table st)"
    by (simp add: nw_start_bundle_def)
  have s0: "sink_writers ?st0 = sink_writers st"
    by (simp add: nw_start_bundle_def)
  show ?thesis
    using assms nw_process_elements_props [OF k] e0 s0
    by (simp add: nw_evaluate_def nw_init_def nw_finish_bundle_def Let_def)
qed

lemma nw_evaluate_final:
  assumes "side_inputs applied = [] \<and> transform applied = Some sink"
    and "input_watermark_at_finish d = WATERMARK_POS_INF"
    and "output_watermark_at_finish d \<noteq> WATERMARK_POS_INF"
  shows "\<exists>res st1. nw_evaluate applied d st = (Inr res, st1)
           \<and> watermark_hold res = Some WATERMARK_POS_INF
           \<and> sink_writers st1 =
               sink_writers st @
                 [map wv_value (get_elements None (write_table st) @ delivered_elements d)]"
proof -
  let ?st0 = "nw_start_bundle st"
  have k: "None \<in> fst ` set (write_table ?st0)"
    by (simp add: nw_start_bundle_def global_key_get_keyed_state)
  have e0: "get_elements None (write_table ?st0) = get_elements None (write_table st)"
    by (simp add: nw_start_bundle_def)
  have s0: "sink_writers ?st0 = sink_writers st"
    by (simp add: nw_start_bundle_def)
  show ?thesis
    using assms nw_process_elements_props [OF k] e0 s0
    by (simp add: nw_evaluate_def nw_init_def nw_finish_bundle_def Let_def write_loop_eq)
qed

lemma nw_run_not_final:
  assumes "side_inputs applied = [] \<and> transform applied = Some sink"
    and "\<forall>d \<in> set ds. input_watermark_at_finish d \<noteq> WATERMARK_POS_INF"
  shows "\<exists>rs st1. nw_run applied ds st = (Inr rs, st1)
           \<and> length rs = length ds
           \<and> (\<forall>res \<in> set rs. watermark_hold res = Some WATERMARK_NEG_INF)
           \<and> sink_writers st1 = sink_writers st
           \<and> get_elements None (write_table st1) =
               get_elements None (write_table st) @ concat (map delivered_elements ds)"
  using assms(2)
proof (induction ds arbitrary: st)
  case Nil
  then show ?case by simp
next
  case (Cons d ds)
  from Cons.prems have nf: "input_watermark_at_finish d \<noteq> WATERMARK_POS_INF" by simp
  from nw_evaluate_not_final [OF assms(1) nf, of st]
  obtain res st1 where ev: "nw_evaluate applied d st = (Inr res, st1)"
    and h: "watermark_hold res = Some WATERMARK_NEG_INF"
    and s: "sink_writers st1 = sink_writers st"
    and e: "get_elements None (write_table st1) =
              get_elements None (write_table st) @ delivered_elements d"
    by blast
  from Cons.prems have "\<forall>d \<in> set ds. input_watermark_at_finish d \<noteq> WATERMARK_POS_INF" by simp
  from Cons.IH [OF this, of st1]
  obtain rs st2 where run: "nw_run applied ds st1 = (Inr rs, st2)"
    and l: "length rs = length ds"
    and hs: "\<forall>res \<in> set rs. watermark_hold res = Some WATERMARK_NEG_INF"
    and s2: "sink_writers st2 = sink_writers st1"
    and e2: "get_elements None (write_table st2) =
              get_elements None (write_table st1) @ concat (map delivered_elements ds)"
    by blast
  show ?case
    using ev h s e run l hs s2 e2 by simp
qed

lemma nw_run_snoc:
  "nw_run applied (ds @ [d]) st =
     (case nw_run applied ds st of
        (Inl err, st1) \<Rightarrow> (Inl err, st1)
      | (Inr rs, st1) \<Rightarrow>
          (case nw_evaluate applied d st1 of
             (Inl err, st2) \<Rightarrow> (Inl err, st2)
           | (Inr r, st2) \<Rightarrow> (Inr (rs @ [r]), st2)))"
  by (induction ds arbitrary: st) (auto split: prod.splits sum.splits)

lemma nw_run_append:
  "nw_run applied (xs @ ys) st =
     (case nw_run applied xs st of
        (Inl err, st1) \<Rightarrow> (Inl err, st1)
      | (Inr rs, st1) \<Rightarrow>
          (case nw_run applied ys st1 of
             (Inl err, st2) \<Rightarrow> (Inl err, st2)
           | (Inr rs', st2) \<Rightarrow> (Inr (rs @ rs'), st2)))"
  by (induction xs arbitrary: st) (auto split: prod.splits sum.splits)

lemma nw_evaluate_after_flush:
  assumes "side_inputs applied = [] \<and> transform applied = Some sink"
    and "input_watermark_at_finish d = WATERMARK_POS_INF"
    and "output_watermark_at_finish d = WATERMARK_POS_INF"
  shows "sink_writers (snd (nw_evaluate applied d st)) = sink_writers st"
proof -
  let ?st0 = "nw_start_bundle st"
  have k: "None \<in> fst ` set (write_table ?st0)"
    by (simp add: nw_start_bundle_def global_key_get_keyed_state)
  have s0: "sink_writers ?st0 = sink_writers st"
    by (simp add: nw_start_bundle_def)
  show ?thesis
    using assms nw_process_elements_props [OF k] s0
    by (simp add: nw_evaluate_def nw_init_def nw_finish_bundle_def Let_def)
qed

lemma nw_run_after_flush:
  assumes "side_inputs applied = [] \<and> transform applied = Some sink"
    and "\<forall>d \<in> set ds. input_watermark_at_finish d = WATERMARK_POS_INF
            \<and> output_watermark_at_finish d = WATERMARK_POS_INF"
  shows "sink_writers (snd (nw_run applied ds st)) = sink_writers st"
  using assms(2)
proof (induction ds arbitrary: st)
  case Nil
  then show ?case by simp
next
  case (Cons d ds)
  have d: "input_watermark_at_finish d = WATERMARK_POS_INF"
    "output_watermark_at_finish d = WATERMARK_POS_INF"
    using Cons.prems by simp_all
  have rest: "\<forall>d \<in> set ds. input_watermark_at_finish d = WATERMARK_POS_INF
            \<and> output_watermark_at_finish d = WATERMARK_POS_INF"
    using Cons.prems by simp
  obtain r st1 where ev: "nw_evaluate applied d st = (r, st1)"
    by (cases "nw_evaluate applied d st")
  have s1: "sink_writers st1 = sink_writers st"
    using nw_evaluate_after_flush [OF assms(1) d, of st] ev by simp
  show ?case
  proof (cases r)
    case (Inl err)
    with ev s1 show ?thesis by simp
  next
    case (Inr res)
    obtain r2 st2 where run: "nw_run applied ds st1 = (r2, st2)"
      by (cases "nw_run applied ds st1")
    have "sink_writers st2 = sink_writers st1"
      using Cons.IH [OF rest, of st1] run by simp
    with Inr ev s1 run show ?thesis by (cases r2) simp_all
  qed
qed

lemmas nw_eval_defs =
  nw_evaluate_def nw_init_def nw_start_bundle_def nw_process_element_def nw_finish_bundle_def
  get_keyed_state_def new_state_def state_of_def add_elements_def get_elements_def
  GlobalWindows_windowed_value_def Let_def

text \<open>
  C2. A \<^verbatim>\<open>_NativeWrite\<close> step without side inputs, with a sink, starts on an empty state
  and receives bundles
  whose \<^verbatim>\<open>finish_bundle\<close> calls see an input watermark below \<open>+\<infinity>\<close>, then one whose call
  sees the input watermark at \<open>+\<infinity>\<close> and the output watermark below it. Then nothing is
  written before the last of these calls, which opens one writer and writes the value
  of every element of every bundle, once, in buffered order. Whatever bundles follow with
  both watermarks at \<open>+\<infinity>\<close>, the sink keeps exactly that one writer's output. A
  \<^verbatim>\<open>finish_bundle\<close> call with the input watermark below \<open>+\<infinity>\<close> never writes, and a call
  with both watermarks at \<open>+\<infinity>\<close> returns normally if the buffered state is empty and
  raises \<^verbatim>\<open>AssertionError\<close> otherwise.
\<close>

theorem native_write_single_flush:
  assumes no_side: "side_inputs applied = []"
    and sink: "transform applied = Some sink"
    and pre: "\<forall>d \<in> set pre. input_watermark_at_finish d \<noteq> WATERMARK_POS_INF"
    and fin_in: "input_watermark_at_finish fin = WATERMARK_POS_INF"
    and fin_out: "output_watermark_at_finish fin \<noteq> WATERMARK_POS_INF"
    and post: "\<forall>d \<in> set post. input_watermark_at_finish d = WATERMARK_POS_INF
            \<and> output_watermark_at_finish d = WATERMARK_POS_INF"
  shows "(\<exists>rs st. nw_run applied (pre @ [fin]) \<lparr>write_table = [], sink_writers = []\<rparr> = (Inr rs, st)
            \<and> sink_writers st = [map wv_value (concat (map delivered_elements (pre @ [fin])))])
       \<and> (\<exists>rs st. nw_run applied pre \<lparr>write_table = [], sink_writers = []\<rparr> = (Inr rs, st)
            \<and> sink_writers st = [])
       \<and> sink_writers (snd (nw_run applied (pre @ fin # post) \<lparr>write_table = [], sink_writers = []\<rparr>))
            = [map wv_value (concat (map delivered_elements (pre @ [fin])))]
       \<and> (\<forall>self wm owm st. wm \<noteq> WATERMARK_POS_INF \<longrightarrow>
            sink_writers (snd (nw_finish_bundle self wm owm st)) = sink_writers st)
       \<and> (\<forall>self st.
            nw_finish_bundle self WATERMARK_POS_INF WATERMARK_POS_INF st =
              (if get_elements None (write_table st) = []
               then Inr \<lparr>result_transform = full_label (nw_applied_ptransform self),
                         uncommitted_output_bundles = [],
                         watermark_hold = Some WATERMARK_POS_INF\<rparr>
               else Inl AssertionError, st))"
proof (intro conjI)
  let ?st0 = "\<lparr>write_table = [], sink_writers = []\<rparr> :: 'a write_state"
  have ready: "side_inputs applied = [] \<and> transform applied = Some sink"
    using no_side sink by simp
  from nw_run_not_final [OF ready pre, of ?st0]
  obtain rs st1 where run: "nw_run applied pre ?st0 = (Inr rs, st1)"
    and s: "sink_writers st1 = []"
    and e: "get_elements None (write_table st1) = concat (map delivered_elements pre)"
    by (auto simp: get_elements_def state_of_def new_state_def)
  from nw_evaluate_final [OF ready fin_in fin_out, of st1]
  obtain res st2 where ev: "nw_evaluate applied fin st1 = (Inr res, st2)"
    and s2: "sink_writers st2 =
               sink_writers st1 @
                 [map wv_value (get_elements None (write_table st1) @ delivered_elements fin)]"
    by blast
  have flushed: "nw_run applied (pre @ [fin]) ?st0 = (Inr (rs @ [res]), st2)"
    using run ev by (simp add: nw_run_snoc)
  have written: "sink_writers st2 = [map wv_value (concat (map delivered_elements (pre @ [fin])))]"
    using s e s2 by simp
  show "\<exists>rs st. nw_run applied (pre @ [fin]) ?st0 = (Inr rs, st)
          \<and> sink_writers st = [map wv_value (concat (map delivered_elements (pre @ [fin])))]"
    using flushed written by simp
  show "\<exists>rs st. nw_run applied pre ?st0 = (Inr rs, st) \<and> sink_writers st = []"
    using run s by simp
  have "nw_run applied (pre @ fin # post) ?st0 = nw_run applied ((pre @ [fin]) @ post) ?st0"
    by simp
  also have "sink_writers (snd \<dots>) = sink_writers st2"
  proof -
    obtain r3 st3 where run3: "nw_run applied post st2 = (r3, st3)"
      by (cases "nw_run applied post st2")
    have "sink_writers st3 = sink_writers st2"
      using nw_run_after_flush [OF ready post, of st2] run3 by simp
    moreover have "nw_run applied ((pre @ [fin]) @ post) ?st0 =
        (case nw_run applied post st2 of
           (Inl err, st) \<Rightarrow> (Inl err, st)
         | (Inr rs', st) \<Rightarrow> (Inr ((rs @ [res]) @ rs'), st))"
      by (simp only: nw_run_append [of applied "pre @ [fin]" post] flushed prod.case sum.case)
    ultimately show ?thesis
      using run3 by (cases r3) (simp_all only: prod.case sum.case snd_conv)
  qed
  finally show "sink_writers (snd (nw_run applied (pre @ fin # post) ?st0))
            = [map wv_value (concat (map delivered_elements (pre @ [fin])))]"
    using written by simp
  show "\<forall>self wm owm st. wm \<noteq> WATERMARK_POS_INF \<longrightarrow>
          sink_writers (snd (nw_finish_bundle self wm owm st)) = sink_writers st"
    by (simp add: nw_finish_bundle_def)
  show "\<forall>self st.
          nw_finish_bundle self WATERMARK_POS_INF WATERMARK_POS_INF st =
            (if get_elements None (write_table st) = []
             then Inr \<lparr>result_transform = full_label (nw_applied_ptransform self),
                       uncommitted_output_bundles = [],
                       watermark_hold = Some WATERMARK_POS_INF\<rparr>
             else Inl AssertionError, st)"
    by (simp add: nw_finish_bundle_def Let_def)
qed

theorem native_write_single_flush_witness:
  "sink_writers (snd (nw_run example_write
      ([\<lparr>delivered_elements =
            [GlobalWindows_windowed_value (1 :: int), GlobalWindows_windowed_value 2],
          input_watermark_at_finish = WatermarkAt 0,
          output_watermark_at_finish = WATERMARK_NEG_INF\<rparr>]
       @ [\<lparr>delivered_elements = [GlobalWindows_windowed_value 3],
            input_watermark_at_finish = WATERMARK_POS_INF,
            output_watermark_at_finish = WatermarkAt 0\<rparr>])
      \<lparr>write_table = [], sink_writers = []\<rparr>)) = [[1, 2, 3]]
   \<and> fst (nw_run example_write
      ([\<lparr>delivered_elements =
            [GlobalWindows_windowed_value (1 :: int), GlobalWindows_windowed_value 2],
          input_watermark_at_finish = WatermarkAt 0,
          output_watermark_at_finish = WATERMARK_NEG_INF\<rparr>]
       @ \<lparr>delivered_elements = [GlobalWindows_windowed_value 3],
            input_watermark_at_finish = WATERMARK_POS_INF,
            output_watermark_at_finish = WatermarkAt 0\<rparr>
       # [\<lparr>delivered_elements = [],
            input_watermark_at_finish = WATERMARK_POS_INF,
            output_watermark_at_finish = WATERMARK_POS_INF\<rparr>])
      \<lparr>write_table = [], sink_writers = []\<rparr>) = Inl AssertionError"
proof -
  let ?pre = "[\<lparr>delivered_elements =
                  [GlobalWindows_windowed_value (1 :: int), GlobalWindows_windowed_value 2],
                input_watermark_at_finish = WatermarkAt 0,
                output_watermark_at_finish = WATERMARK_NEG_INF\<rparr>]"
  let ?fin = "\<lparr>delivered_elements = [GlobalWindows_windowed_value (3 :: int)],
               input_watermark_at_finish = WATERMARK_POS_INF,
               output_watermark_at_finish = WatermarkAt 0\<rparr>"
  let ?post = "[\<lparr>delivered_elements = [] :: int windowed_value list,
                 input_watermark_at_finish = WATERMARK_POS_INF,
                 output_watermark_at_finish = WATERMARK_POS_INF\<rparr>]"
  have h1: "side_inputs example_write = []"
    by (simp add: example_write_def)
  have h2: "transform example_write = Some ''sink''"
    by (simp add: example_write_def)
  have h3: "\<forall>d \<in> set ?pre. input_watermark_at_finish d \<noteq> WATERMARK_POS_INF"
    by simp
  have h4: "input_watermark_at_finish ?fin = WATERMARK_POS_INF"
    by simp
  have h5: "output_watermark_at_finish ?fin \<noteq> WATERMARK_POS_INF"
    by simp
  have h6: "\<forall>d \<in> set ?post. input_watermark_at_finish d = WATERMARK_POS_INF
              \<and> output_watermark_at_finish d = WATERMARK_POS_INF"
    by simp
  from native_write_single_flush [OF h1 h2 h3 h4 h5 h6]
  show ?thesis
    by (simp add: example_write_def nw_eval_defs)
qed

end
